theory Spec2Isabelle
  imports Main "HOL-Library.Multiset" "HOL-Library.Char_ord" "HOL-Library.List_Lexorder"
begin

section \<open>Python values\<close>

text \<open>
  The script \<^verbatim>\<open>brew_tap_audit.py\<close> talks to three things outside itself: the
  \<^verbatim>\<open>brew\<close> executable (through \<^verbatim>\<open>subprocess.run\<close>), the JSON parser
  \<^verbatim>\<open>json.loads\<close> and the network (through \<^verbatim>\<open>urllib.request.urlopen\<close>).
  The embedding takes their answers as a parameter (the record \<open>world\<close> below) and
  writes every call and every \<^verbatim>\<open>print\<close> into a trace, so that what the script does
  is a function of the world it runs in.

  A Python \<^verbatim>\<open>str\<close> is a \<^typ>\<open>string\<close> holding its UTF-8 encoding. Splitting on
  \<^verbatim>\<open>/\<close>, concatenation and the order of \<^verbatim>\<open>list.sort\<close> (code point order, which
  for UTF-8 is the lexicographic order of the bytes) read the same on the encoding.
\<close>

text \<open>
  The exceptions the script can meet. The first three are the ones its
  \<^verbatim>\<open>except\<close> clauses name; they carry \<^verbatim>\<open>str(e)\<close>, which the handlers print.
  \<open>OtherError\<close> is any other exception a library call raises (for instance
  \<^verbatim>\<open>FileNotFoundError\<close> when \<^verbatim>\<open>brew\<close> is not installed).
\<close>

datatype exn =
    CalledProcessError string
  | JSONDecodeError string
  | KeyError string
  | AttributeError
  | TypeError
  | ValueError
  | IndexError
  | OtherError string

fun str_exn :: "exn \<Rightarrow> string" where
  "str_exn (CalledProcessError m) = m"
| "str_exn (JSONDecodeError m) = m"
| "str_exn (KeyError m) = m"
| "str_exn (OtherError m) = m"
| "str_exn AttributeError = ''AttributeError''"
| "str_exn TypeError = ''TypeError''"
| "str_exn ValueError = ''ValueError''"
| "str_exn IndexError = ''IndexError''"

text \<open>
  The values \<^verbatim>\<open>json.loads\<close> returns: \<^verbatim>\<open>None\<close>, \<^verbatim>\<open>bool\<close>, \<^verbatim>\<open>int\<close>,
  \<^verbatim>\<open>str\<close>, \<^verbatim>\<open>list\<close> and \<^verbatim>\<open>dict\<close> (a dict in insertion order, looked up
  from the front). Floating-point numbers are left out of the model.
\<close>

datatype json =
    JNull
  | JBool bool
  | JInt int
  | JStr string
  | JArr "json list"
  | JObj "(string \<times> json) list"

text \<open>\<^verbatim>\<open>obj.get(key, default)\<close>: only a dict has the method.\<close>

fun py_get :: "json \<Rightarrow> string \<Rightarrow> json \<Rightarrow> exn + json" where
  "py_get (JObj kvs) k d = Inr (case map_of kvs k of None \<Rightarrow> d | Some v \<Rightarrow> v)"
| "py_get _ k d = Inl AttributeError"

text \<open>
  \<^verbatim>\<open>a + b\<close>: lists and strings concatenate, \<^verbatim>\<open>bool\<close> and \<^verbatim>\<open>int\<close> add as
  integers, every other pair raises \<^verbatim>\<open>TypeError\<close>.
\<close>

fun int_of_json :: "json \<Rightarrow> int option" where
  "int_of_json (JInt n) = Some n"
| "int_of_json (JBool b) = Some (if b then 1 else 0)"
| "int_of_json _ = None"

fun py_add :: "json \<Rightarrow> json \<Rightarrow> exn + json" where
  "py_add (JArr xs) (JArr ys) = Inr (JArr (xs @ ys))"
| "py_add (JStr s) (JStr t) = Inr (JStr (s @ t))"
| "py_add a b =
     (case (int_of_json a, int_of_json b) of
        (Some m, Some n) \<Rightarrow> Inr (JInt (m + n))
      | _ \<Rightarrow> Inl TypeError)"

text \<open>
  The elements a \<^verbatim>\<open>for\<close> loop draws from a value. A string yields one-character
  strings (here: one string per byte; the script only ever calls \<^verbatim>\<open>.get\<close> on the
  first of them, which fails for any string), a dict yields its keys.
\<close>

fun py_iter :: "json \<Rightarrow> exn + json list" where
  "py_iter (JArr xs) = Inr xs"
| "py_iter (JStr s) = Inr (map (\<lambda>c. JStr [c]) s)"
| "py_iter (JObj kvs) = Inr (map (\<lambda>kv. JStr (fst kv)) kvs)"
| "py_iter _ = Inl TypeError"

text \<open>Truth value of a Python object, as \<^verbatim>\<open>if installed\<close> tests it.\<close>

fun truthy :: "json \<Rightarrow> bool" where
  "truthy JNull = False"
| "truthy (JBool b) = b"
| "truthy (JInt n) = (n \<noteq> 0)"
| "truthy (JStr s) = (s \<noteq> [])"
| "truthy (JArr xs) = (xs \<noteq> [])"
| "truthy (JObj kvs) = (kvs \<noteq> [])"

text \<open>
  Dictionary keys. A list or a dict is unhashable (\<^verbatim>\<open>TypeError\<close>);
  \<^verbatim>\<open>True\<close> and \<^verbatim>\<open>1\<close> (and \<^verbatim>\<open>False\<close> and \<^verbatim>\<open>0\<close>) are the same key.
\<close>

datatype key = KNone | KInt int | KStr string

fun py_hash :: "json \<Rightarrow> exn + key" where
  "py_hash JNull = Inr KNone"
| "py_hash (JBool b) = Inr (KInt (if b then 1 else 0))"
| "py_hash (JInt n) = Inr (KInt n)"
| "py_hash (JStr s) = Inr (KStr s)"
| "py_hash (JArr xs) = Inl TypeError"
| "py_hash (JObj kvs) = Inl TypeError"

section \<open>Text operations\<close>

text \<open>
  \<open>match_any ps s\<close> is the first non-empty pattern of \<open>ps\<close> that \<open>s\<close> starts with.
\<close>

definition match_any :: "string list \<Rightarrow> string \<Rightarrow> string option" where
  "match_any ps s = find (\<lambda>p. p \<noteq> [] \<and> take (length p) s = p) ps"

text \<open>
  The characters \<^verbatim>\<open>str.strip()\<close> removes (\<^verbatim>\<open>str.isspace\<close>): U+0009 to U+000D,
  U+001C to U+0020, U+0085, U+00A0, U+1680, U+2000 to U+200A, U+2028, U+2029, U+202F,
  U+205F and U+3000, each in UTF-8.
\<close>

definition whitespace :: "string list" where
  "whitespace =
     map (\<lambda>c. [c]) [CHR 0x09, CHR 0x0A, CHR 0x0B, CHR 0x0C, CHR 0x0D,
                     CHR 0x1C, CHR 0x1D, CHR 0x1E, CHR 0x1F, CHR 0x20]
     @ [[CHR 0xC2, CHR 0x85], [CHR 0xC2, CHR 0xA0], [CHR 0xE1, CHR 0x9A, CHR 0x80]]
     @ map (\<lambda>c. [CHR 0xE2, CHR 0x80, c])
         [CHR 0x80, CHR 0x81, CHR 0x82, CHR 0x83, CHR 0x84, CHR 0x85, CHR 0x86,
          CHR 0x87, CHR 0x88, CHR 0x89, CHR 0x8A, CHR 0xA8, CHR 0xA9, CHR 0xAF]
     @ [[CHR 0xE2, CHR 0x81, CHR 0x9F], [CHR 0xE3, CHR 0x80, CHR 0x80]]"

text \<open>
  The line boundaries of \<^verbatim>\<open>str.splitlines()\<close>: CR LF (tried first), LF, CR, VT, FF,
  FS, GS, RS, U+0085, U+2028 and U+2029.
\<close>

definition line_breaks :: "string list" where
  "line_breaks =
     [[CHR 0x0D, CHR 0x0A], [CHR 0x0A], [CHR 0x0D], [CHR 0x0B], [CHR 0x0C],
      [CHR 0x1C], [CHR 0x1D], [CHR 0x1E], [CHR 0xC2, CHR 0x85],
      [CHR 0xE2, CHR 0x80, CHR 0xA8], [CHR 0xE2, CHR 0x80, CHR 0xA9]]"

lemma match_any_Some:
  "match_any ps s = Some p \<Longrightarrow> p \<noteq> [] \<and> take (length p) s = p \<and> p \<in> set ps"
  unfolding match_any_def by (induction ps) (auto split: if_splits)

lemma match_any_shorter: "match_any ps s = Some p \<Longrightarrow> length s - length p < length s"
proof -
  assume "match_any ps s = Some p"
  then have p: "p \<noteq> []" "take (length p) s = p" using match_any_Some by blast+
  then have "s \<noteq> []" by auto
  with p show ?thesis by (cases p) auto
qed

function drop_leading :: "string list \<Rightarrow> string \<Rightarrow> string" where
  "drop_leading ps s =
     (case match_any ps s of
        None \<Rightarrow> s
      | Some p \<Rightarrow> drop_leading ps (drop (length p) s))"
  by pat_completeness auto
termination
  by (relation "measure (\<lambda>(ps, s). length s)") (auto simp: match_any_shorter)

declare drop_leading.simps [simp del]

text \<open>\<^verbatim>\<open>s.strip()\<close>: whitespace goes from both ends.\<close>

definition strip :: "string \<Rightarrow> string" where
  "strip s = rev (drop_leading (map rev whitespace) (rev (drop_leading whitespace s)))"

text \<open>
  \<^verbatim>\<open>s.splitlines()\<close>: the lines without their boundaries; no empty last line after a
  final boundary, and no line at all for the empty string. \<open>cur\<close> is the line read so
  far, reversed.
\<close>

function splitlines_from :: "string \<Rightarrow> string \<Rightarrow> string list" where
  "splitlines_from cur s =
     (if s = [] then (if cur = [] then [] else [rev cur])
      else (case match_any line_breaks s of
              Some b \<Rightarrow> rev cur # splitlines_from [] (drop (length b) s)
            | None \<Rightarrow> splitlines_from (hd s # cur) (tl s)))"
  by pat_completeness auto
termination
  by (relation "measure (\<lambda>(cur, s). length s)") (auto simp: match_any_shorter)

declare splitlines_from.simps [simp del]

definition splitlines :: "string \<Rightarrow> string list" where
  "splitlines s = splitlines_from [] s"

text \<open>\<^verbatim>\<open>s.split(sep)\<close> for a one-character separator: always at least one piece.\<close>

fun split_sep :: "char \<Rightarrow> string \<Rightarrow> string list" where
  "split_sep c [] = [[]]"
| "split_sep c (x # xs) =
     (if x = c then [] # split_sep c xs
      else (case split_sep c xs of [] \<Rightarrow> [[x]] | w # ws \<Rightarrow> (x # w) # ws))"

text \<open>\<^verbatim>\<open>sep.join(xs)\<close>.\<close>

fun join :: "string \<Rightarrow> string list \<Rightarrow> string" where
  "join sep [] = []"
| "join sep [x] = x"
| "join sep (x # y # ys) = x @ sep @ join sep (y # ys)"

text \<open>\<^verbatim>\<open>str(n)\<close> for a length: decimal digits.\<close>

fun str_nat :: "nat \<Rightarrow> string" where
  "str_nat n =
     (if n < 10 then [''0123456789'' ! n]
      else str_nat (n div 10) @ [''0123456789'' ! (n mod 10)])"

declare str_nat.simps [simp del]

section \<open>The world and the trace\<close>

text \<open>
  What each library call answers. \<open>subprocess_run w argv\<close> is
  \<^verbatim>\<open>subprocess.run(argv, capture_output=True, text=True, check=True)\<close>: the
  captured standard output, or the exception raised (\<open>CalledProcessError\<close> on a
  non-zero exit). \<open>json_loads\<close> is \<^verbatim>\<open>json.loads\<close>. \<open>urlopen w url\<close> is the
  \<^verbatim>\<open>HEAD\<close> request with its 5 second timeout: \<open>Inr status\<close> when a response comes
  back, \<open>Inl m\<close> when an \<^verbatim>\<open>Exception e\<close> with \<^verbatim>\<open>str(e) = m\<close> is raised
  (urllib raises \<^verbatim>\<open>HTTPError\<close> for a status outside 200..299).
  Writing to standard output is taken to succeed, and nothing interrupts the script
  from outside (no \<^verbatim>\<open>KeyboardInterrupt\<close>).
\<close>

record world =
  subprocess_run :: "string list \<Rightarrow> exn + string"
  json_loads :: "string \<Rightarrow> exn + json"
  urlopen :: "string \<Rightarrow> string + int"

datatype event =
    Run "string list"
  | Head string
  | Print string

type_synonym trace = "event list"

type_synonym 'a prog = "trace \<Rightarrow> (exn + 'a) \<times> trace"

text \<open>Sequencing: an exception ends the run of statements and keeps the trace.\<close>

definition and_then :: "'a prog \<Rightarrow> ('a \<Rightarrow> 'b prog) \<Rightarrow> 'b prog" where
  "and_then f g tr = (case f tr of (Inl e, tr') \<Rightarrow> (Inl e, tr') | (Inr a, tr') \<Rightarrow> g a tr')"

definition print :: "string \<Rightarrow> unit prog" where
  "print s tr = (Inr (), tr @ [Print s])"

definition run :: "world \<Rightarrow> string list \<Rightarrow> string prog" where
  "run w argv tr = (subprocess_run w argv, tr @ [Run argv])"

section \<open>The script\<close>

abbreviation core :: string where "core \<equiv> ''homebrew/core''"
abbreviation cask :: string where "cask \<equiv> ''homebrew/cask''"

subsection \<open>\<^verbatim>\<open>get_homebrew_taps\<close> and \<^verbatim>\<open>get_installed_items\<close>\<close>

definition get_homebrew_taps :: "world \<Rightarrow> string list prog" where
  "get_homebrew_taps w tr =
     (case run w [''brew'', ''tap''] tr of
        (Inr out, tr') \<Rightarrow> (Inr (sort (splitlines (strip out))), tr')
      | (Inl (CalledProcessError m), tr') \<Rightarrow>
          and_then (print (''Error getting taps: '' @ m)) (\<lambda>_ tr. (Inr [], tr)) tr'
      | (Inl e, tr') \<Rightarrow> (Inl e, tr'))"

definition get_installed_items :: "world \<Rightarrow> string \<Rightarrow> string list prog" where
  "get_installed_items w item_type tr =
     (case run w [''brew'', ''list'', ''--'' @ item_type] tr of
        (Inr out, tr') \<Rightarrow> (Inr (splitlines (strip out)), tr')
      | (Inl (CalledProcessError m), tr') \<Rightarrow>
          and_then (print (''Error getting installed '' @ item_type @ '': '' @ m))
            (\<lambda>_ tr. (Inr [], tr)) tr'
      | (Inl e, tr') \<Rightarrow> (Inl e, tr'))"

subsection \<open>\<^verbatim>\<open>group_items_by_tap\<close>\<close>

text \<open>
  \<^verbatim>\<open>tap_map\<close> is a \<^verbatim>\<open>defaultdict(list)\<close>; nothing ever reads the order of its keys.
  \<open>append_item m k x\<close> is \<^verbatim>\<open>m[k].append(x)\<close>.
\<close>

type_synonym tap_map = "key \<rightharpoonup> string list"

definition append_item :: "tap_map \<Rightarrow> key \<Rightarrow> string \<Rightarrow> tap_map" where
  "append_item m k x = m(k \<mapsto> (case m k of None \<Rightarrow> [] | Some xs \<Rightarrow> xs) @ [x])"

text \<open>
  The loop \<^verbatim>\<open>for idx, info in enumerate(all_info)\<close> (lines 46 to 52). It returns the
  exception that ended it, if any, with \<^verbatim>\<open>tap_map\<close> as it stood.
\<close>

fun attribute :: "string list \<Rightarrow> (nat \<times> json) list \<Rightarrow> tap_map \<Rightarrow> exn option \<times> tap_map" where
  "attribute items [] m = (None, m)"
| "attribute items ((idx, info) # rest) m =
     (case py_get info ''installed'' (JArr []) of
        Inl e \<Rightarrow> (Some e, m)
      | Inr installed \<Rightarrow>
          if truthy installed \<and> idx < length items then
            (case py_get info ''tap'' (JStr core) of
               Inl e \<Rightarrow> (Some e, m)
             | Inr tap \<Rightarrow>
                 (case py_hash tap of
                    Inl e \<Rightarrow> (Some e, m)
                  | Inr k \<Rightarrow> attribute items rest (append_item m k (items ! idx))))
          else attribute items rest m)"

text \<open>
  Lines 41 to 43 and the iterator of line 46: the records of the parsed document,
  formulae first.
\<close>

definition all_records :: "json \<Rightarrow> exn + json list" where
  "all_records info_data =
     (case py_get info_data ''formulae'' (JArr []) of
        Inl e \<Rightarrow> Inl e
      | Inr formulae_info \<Rightarrow>
     (case py_get info_data ''casks'' (JArr []) of
        Inl e \<Rightarrow> Inl e
      | Inr casks_info \<Rightarrow>
     (case py_add formulae_info casks_info of
        Inl e \<Rightarrow> Inl e
      | Inr all_info \<Rightarrow> py_iter all_info)))"

text \<open>Lines 41 to 52: from the parsed document to the end of the loop.\<close>

definition group_parsed :: "string list \<Rightarrow> json \<Rightarrow> tap_map \<Rightarrow> exn option \<times> tap_map" where
  "group_parsed items info_data m =
     (case all_records info_data of
        Inl e \<Rightarrow> (Some e, m)
      | Inr infos \<Rightarrow> attribute items (enumerate 0 infos) m)"

text \<open>The body of the \<^verbatim>\<open>try\<close> (lines 34 to 52).\<close>

definition try_group :: "world \<Rightarrow> string list \<Rightarrow> tap_map \<Rightarrow> trace \<Rightarrow> (exn option \<times> tap_map) \<times> trace" where
  "try_group w items m tr =
     (case run w ([''brew'', ''info'', ''--json=v2''] @ items) tr of
        (Inl e, tr') \<Rightarrow> ((Some e, m), tr')
      | (Inr out, tr') \<Rightarrow>
          (case json_loads w out of
             Inl e \<Rightarrow> ((Some e, m), tr')
           | Inr info_data \<Rightarrow> (group_parsed items info_data m, tr')))"

text \<open>
  \<^verbatim>\<open>except (subprocess.CalledProcessError, json.JSONDecodeError, KeyError)\<close>.
\<close>

fun caught :: "exn \<Rightarrow> bool" where
  "caught (CalledProcessError m) = True"
| "caught (JSONDecodeError m) = True"
| "caught (KeyError m) = True"
| "caught _ = False"

definition group_items_by_tap :: "world \<Rightarrow> string list \<Rightarrow> tap_map prog" where
  "group_items_by_tap w items tr =
     (let tap_map = Map.empty in
      if items = [] then (Inr tap_map, tr)
      else
        (case try_group w items tap_map tr of
           ((None, m), tr') \<Rightarrow> (Inr m, tr')
         | ((Some e, m), tr') \<Rightarrow>
             if caught e then
               and_then (print (''Error grouping items: '' @ str_exn e))
                 (\<lambda>_ tr. (Inr (foldl (\<lambda>m item. append_item m (KStr core) item) m items), tr)) tr'
             else (Inl e, tr')))"

subsection \<open>\<^verbatim>\<open>merge_formulae_and_casks\<close>\<close>

text \<open>
  The record of a tap is a dict with the keys \<^verbatim>\<open>"formulae"\<close> and \<^verbatim>\<open>"casks"\<close>;
  \<^verbatim>\<open>main\<close> passes the empty dict for a tap with no record, so it stays a dict here.
  The loop writes each key of \<^verbatim>\<open>all_taps\<close> once, from the two \<^verbatim>\<open>get\<close>s alone.
\<close>

type_synonym installed = "string \<rightharpoonup> string list"

definition get_list :: "('k \<rightharpoonup> string list) \<Rightarrow> 'k \<Rightarrow> string list" where
  "get_list m k = (case m k of None \<Rightarrow> [] | Some xs \<Rightarrow> xs)"

definition merge_formulae_and_casks ::
  "('k \<rightharpoonup> string list) \<Rightarrow> ('k \<rightharpoonup> string list) \<Rightarrow> ('k \<rightharpoonup> installed)" where
  "merge_formulae_and_casks formula_map cask_map =
     (\<lambda>tap. if tap \<in> dom formula_map \<union> dom cask_map
             then Some [''formulae'' \<mapsto> get_list formula_map tap,
                        ''casks'' \<mapsto> get_list cask_map tap]
             else None)"

subsection \<open>\<^verbatim>\<open>check_url_reachable\<close>, \<^verbatim>\<open>infer_tap_url\<close>, \<^verbatim>\<open>check_tap\<close>\<close>

text \<open>What \<^verbatim>\<open>check_url_reachable\<close> returns: a \<^verbatim>\<open>bool\<close> or a \<^verbatim>\<open>str\<close>.\<close>

datatype reach = RBool bool | RStr string

fun str_reach :: "reach \<Rightarrow> string" where
  "str_reach (RBool True) = ''True''"
| "str_reach (RBool False) = ''False''"
| "str_reach (RStr s) = s"

definition check_url_reachable :: "world \<Rightarrow> string \<Rightarrow> reach prog" where
  "check_url_reachable w url tr =
     (case urlopen w url of
        Inr status \<Rightarrow> (Inr (RBool (status = 200)), tr @ [Head url])
      | Inl m \<Rightarrow>
          (if m \<noteq> [] then
             (case splitlines m of
                [] \<Rightarrow> (Inl IndexError, tr @ [Head url])
              | l # _ \<Rightarrow> (Inr (RStr (''Error: '' @ l)), tr @ [Head url]))
           else (Inr (RStr (''Error: '' @ ''Unknown error'')), tr @ [Head url])))"

definition infer_tap_url :: "string \<Rightarrow> exn + string" where
  "infer_tap_url tap_name =
     (case split_sep CHR ''/'' tap_name of
        [user, repo] \<Rightarrow> Inr (''https://github.com/'' @ user @ ''/homebrew-'' @ repo)
      | _ \<Rightarrow> Inl ValueError)"

text \<open>The arrow U+21B3 of the listing lines, in UTF-8.\<close>

definition arrow :: string where
  "arrow = [CHR 0xE2, CHR 0x86, CHR 0xB3]"

definition status_line :: "string \<Rightarrow> string \<Rightarrow> reach \<Rightarrow> string" where
  "status_line tap url result =
     (if result = RBool True then ''[OK] '' @ tap @ '' ('' @ url @ '') is reachable''
      else ''[ERROR] Cannot reach '' @ tap @ '' ('' @ url @ ''): '' @ str_reach result)"

text \<open>Lines 98 to 105: the lines printed after the status line.\<close>

definition listing :: "string \<Rightarrow> installed \<Rightarrow> string list" where
  "listing tap inst =
     (let formulas = get_list inst ''formulae''; casks = get_list inst ''casks'' in
        (if formulas \<noteq> [] then ['' '' @ arrow @ '' Formulae: '' @ join '', '' formulas] else [])
      @ (if casks \<noteq> [] then ['' '' @ arrow @ '' Casks: '' @ join '', '' casks] else [])
      @ (if formulas = [] \<and> casks = []
         then ['' '' @ arrow @ '' No formulae or casks installed from '' @ tap] else []))"

fun print_all :: "string list \<Rightarrow> unit prog" where
  "print_all [] tr = (Inr (), tr)"
| "print_all (l # ls) tr = and_then (print l) (\<lambda>_. print_all ls) tr"

definition check_tap :: "world \<Rightarrow> string \<Rightarrow> installed \<Rightarrow> unit prog" where
  "check_tap w tap inst tr =
     (case infer_tap_url tap of
        Inl e \<Rightarrow> (Inl e, tr)
      | Inr url \<Rightarrow>
          and_then (check_url_reachable w url) (\<lambda>result.
          and_then (print (status_line tap url result)) (\<lambda>_.
          print_all (listing tap inst))) tr)"

subsection \<open>\<^verbatim>\<open>main\<close>\<close>

text \<open>
  Lines 109 to 111. \<^verbatim>\<open>list(set(taps))\<close> holds each name once, in no particular
  order; sorting a list of distinct names gives one result whatever the order was.
\<close>

definition main_taps :: "string list \<Rightarrow> string list" where
  "main_taps custom_taps = sort (remdups ([core, cask] @ custom_taps))"

text \<open>The loop of lines 121 and 122; \<^verbatim>\<open>installed_map.get(tap, {})\<close>.\<close>

definition installed_for :: "(key \<rightharpoonup> installed) \<Rightarrow> string \<Rightarrow> installed" where
  "installed_for installed_map tap =
     (case installed_map (KStr tap) of None \<Rightarrow> Map.empty | Some i \<Rightarrow> i)"

fun check_taps :: "world \<Rightarrow> string list \<Rightarrow> (key \<rightharpoonup> installed) \<Rightarrow> unit prog" where
  "check_taps w [] installed_map tr = (Inr (), tr)"
| "check_taps w (tap # taps) installed_map tr =
     and_then (check_tap w tap (installed_for installed_map tap))
       (\<lambda>_. check_taps w taps installed_map) tr"

text \<open>Lines 117 to 122.\<close>

definition found_line :: "nat \<Rightarrow> string" where
  "found_line n =
     ''Found '' @ str_nat n @ '' taps. Checking accessibility and usage...'' @ [CHR 0x0A]"

definition report :: "world \<Rightarrow> string list \<Rightarrow> (key \<rightharpoonup> installed) \<Rightarrow> unit prog" where
  "report w taps installed_map tr =
     (if taps = [] then print ''No taps found.'' tr
      else
        and_then (print (found_line (length taps)))
          (\<lambda>_. check_taps w taps installed_map) tr)"

definition main :: "world \<Rightarrow> unit prog" where
  "main w =
     and_then (get_homebrew_taps w) (\<lambda>custom_taps.
     and_then (get_installed_items w ''formula'') (\<lambda>formulae.
     and_then (get_installed_items w ''cask'') (\<lambda>casks.
     and_then (group_items_by_tap w formulae) (\<lambda>formula_map.
     and_then (group_items_by_tap w casks) (\<lambda>cask_map.
     report w (main_taps custom_taps)
       (merge_formulae_and_casks formula_map cask_map))))))"

section \<open>Reading a run\<close>

text \<open>The texts of the \<^verbatim>\<open>print\<close> calls of a trace, in order.\<close>

fun printed :: "trace \<Rightarrow> string list" where
  "printed [] = []"
| "printed (Print s # tr) = s # printed tr"
| "printed (e # tr) = printed tr"

definition starts_with :: "string \<Rightarrow> string \<Rightarrow> bool" where
  "starts_with p s = (take (length p) s = p)"

text \<open>The URLs of the \<^verbatim>\<open>HEAD\<close> requests of a trace, in order.\<close>

fun probed :: "trace \<Rightarrow> string list" where
  "probed [] = []"
| "probed (Head u # tr) = u # probed tr"
| "probed (e # tr) = probed tr"

text \<open>
  The value \<^verbatim>\<open>check_url_reachable\<close> returns for a URL, read off the world (it is
  shown below to be that value), and what one call of \<^verbatim>\<open>check_tap\<close> from the loop
  of \<^verbatim>\<open>main\<close> adds to the trace for a tap whose URL can be derived.
\<close>

definition probe_result :: "world \<Rightarrow> string \<Rightarrow> reach" where
  "probe_result w url =
     (case urlopen w url of
        Inr status \<Rightarrow> RBool (status = 200)
      | Inl m \<Rightarrow> RStr (''Error: '' @ (if m = [] then ''Unknown error'' else hd (splitlines m))))"

definition tap_events :: "world \<Rightarrow> (key \<rightharpoonup> installed) \<Rightarrow> string \<Rightarrow> trace" where
  "tap_events w installed_map tap =
     (case infer_tap_url tap of
        Inl e \<Rightarrow> []
      | Inr url \<Rightarrow>
          Head url # Print (status_line tap url (probe_result w url))
          # map Print (listing tap (installed_for installed_map tap)))"

text \<open>
  What a metadata record says: whether the item is installed, and the key of its tap
  (\<^verbatim>\<open>homebrew/core\<close> when it has no \<^verbatim>\<open>tap\<close> field).
\<close>

definition record_installed :: "json \<Rightarrow> bool" where
  "record_installed info =
     (case py_get info ''installed'' (JArr []) of Inl e \<Rightarrow> False | Inr v \<Rightarrow> truthy v)"

definition record_tap :: "json \<Rightarrow> key option" where
  "record_tap info =
     (case py_get info ''tap'' (JStr core) of
        Inl e \<Rightarrow> None
      | Inr tap \<Rightarrow> (case py_hash tap of Inl e \<Rightarrow> None | Inr k \<Rightarrow> Some k))"

text \<open>
  The records the bulk query for \<open>items\<close> yields in a world, when the command
  succeeds, its output parses and the document gives a sequence of records.
\<close>

definition response_records :: "world \<Rightarrow> string list \<Rightarrow> json list option" where
  "response_records w items =
     (case subprocess_run w ([''brew'', ''info'', ''--json=v2''] @ items) of
        Inl e \<Rightarrow> None
      | Inr out \<Rightarrow>
          (case json_loads w out of
             Inl e \<Rightarrow> None
           | Inr info_data \<Rightarrow>
               (case all_records info_data of Inl e \<Rightarrow> None | Inr infos \<Rightarrow> Some infos)))"

text \<open>All names a grouping holds, with their multiplicities, over all taps.\<close>

definition all_attributed :: "tap_map \<Rightarrow> string multiset" where
  "all_attributed m = (\<Sum>k \<in> dom m. mset (get_list m k))"

section \<open>Example worlds\<close>

text \<open>
  A machine with the third-party tap \<^verbatim>\<open>alice/tools\<close>, the formulae \<^verbatim>\<open>wget\<close> (from
  core) and \<^verbatim>\<open>jq\<close> (from the third-party tap) and the cask \<^verbatim>\<open>firefox\<close>. The two
  default taps answer 200, the third-party tap is gone (404). The texts
  \<^verbatim>\<open>formulae.json\<close> and \<^verbatim>\<open>casks.json\<close> stand for the documents \<^verbatim>\<open>brew info\<close>
  prints; the world says what they parse to.
\<close>

definition formulae_doc :: json where
  "formulae_doc =
     JObj [(''formulae'',
            JArr [JObj [(''name'', JStr ''wget''), (''tap'', JStr core),
                        (''installed'', JArr [JObj [(''version'', JStr ''1.21.4'')]])],
                  JObj [(''name'', JStr ''jq''), (''tap'', JStr ''alice/tools''),
                        (''installed'', JArr [JObj [(''version'', JStr ''1.7'')]])]]),
           (''casks'', JArr [])]"

definition casks_doc :: json where
  "casks_doc =
     JObj [(''formulae'', JArr []),
           (''casks'',
            JArr [JObj [(''token'', JStr ''firefox''), (''tap'', JStr cask),
                        (''installed'', JStr ''121.0'')]])]"

definition demo :: world where
  "demo =
     \<lparr>subprocess_run = (\<lambda>argv.
        if argv = [''brew'', ''tap''] then Inr (''alice/tools'' @ [CHR 0x0A])
        else if argv = [''brew'', ''list'', ''--formula'']
          then Inr (''wget'' @ [CHR 0x0A] @ ''jq'' @ [CHR 0x0A])
        else if argv = [''brew'', ''list'', ''--cask''] then Inr (''firefox'' @ [CHR 0x0A])
        else if argv = [''brew'', ''info'', ''--json=v2'', ''wget'', ''jq'']
          then Inr ''formulae.json''
        else if argv = [''brew'', ''info'', ''--json=v2'', ''firefox''] then Inr ''casks.json''
        else Inl (CalledProcessError ''Command returned non-zero exit status 1.'')),
      json_loads = (\<lambda>s.
        if s = ''formulae.json'' then Inr formulae_doc
        else if s = ''casks.json'' then Inr casks_doc
        else Inl (JSONDecodeError ''Expecting value: line 1 column 1 (char 0)'')),
      urlopen = (\<lambda>url.
        if url = ''https://github.com/homebrew/homebrew-core''
           \<or> url = ''https://github.com/homebrew/homebrew-cask'' then Inr 200
        else Inl ''HTTP Error 404: Not Found'')\<rparr>"

text \<open>
  The same machine when \<^verbatim>\<open>brew info\<close> reports \<^verbatim>\<open>wget\<close> with no installed
  version, and when it prints something that is not JSON.
\<close>

definition stale_doc :: json where
  "stale_doc =
     JObj [(''formulae'',
            JArr [JObj [(''name'', JStr ''wget''), (''tap'', JStr core), (''installed'', JArr [])]]),
           (''casks'', JArr [])]"

definition stale :: world where
  "stale = demo\<lparr>subprocess_run := (\<lambda>argv. Inr ''stale.json''),
                 json_loads := (\<lambda>s. Inr stale_doc)\<rparr>"

definition garbled :: world where
  "garbled = demo\<lparr>subprocess_run := (\<lambda>argv. Inr ''Warning: something else'')\<rparr>"

text \<open>
  The same machine when what \<^verbatim>\<open>brew info\<close> prints parses to a JSON list instead
  of an object.
\<close>

definition listed :: world where
  "listed = demo\<lparr>json_loads := (\<lambda>s. Inr (JArr []))\<rparr>"

text \<open>The same machine when \<^verbatim>\<open>brew info\<close> prints the empty JSON object.\<close>

definition bare :: world where
  "bare = demo\<lparr>subprocess_run := (\<lambda>argv. Inr ''{}''),
                json_loads := (\<lambda>s. Inr (JObj []))\<rparr>"

text \<open>The same machine when \<^verbatim>\<open>brew tap\<close> alone exits with an error.\<close>

definition untapped :: world where
  "untapped = demo\<lparr>subprocess_run := (\<lambda>argv.
     if argv = [''brew'', ''tap'']
     then Inl (CalledProcessError ''Command returned non-zero exit status 1.'')
     else subprocess_run demo argv)\<rparr>"

text \<open>A server that answers the probe with 204 (No Content).\<close>

definition no_content :: world where
  "no_content = demo\<lparr>urlopen := (\<lambda>url. Inr 204)\<rparr>"

text \<open>A machine whose \<^verbatim>\<open>brew tap\<close> prints a name without a \<^verbatim>\<open>/\<close>.\<close>

definition odd_tap :: world where
  "odd_tap = demo\<lparr>subprocess_run := (\<lambda>argv.
     if argv = [''brew'', ''tap''] then Inr (''badtap'' @ [CHR 0x0A]) else Inr [])\<rparr>"

text \<open>A machine on which \<^verbatim>\<open>brew\<close> exits with an error whatever it is asked.\<close>

definition failing :: world where
  "failing = demo\<lparr>subprocess_run := (\<lambda>argv.
     Inl (CalledProcessError ''Command returned non-zero exit status 1.''))\<rparr>"

text \<open>The groupings of the formulae and of the casks of \<open>demo\<close>.\<close>

definition demo_formulae :: tap_map where
  "demo_formulae = [KStr core \<mapsto> [''wget''], KStr ''alice/tools'' \<mapsto> [''jq'']]"

definition demo_casks :: tap_map where
  "demo_casks = [KStr cask \<mapsto> [''firefox'']]"

section \<open>Properties of the text operations\<close>

lemma split_sep_no_sep: "c \<notin> set s \<Longrightarrow> split_sep c s = [s]"
  by (induction s) auto

lemma split_sep_append: "c \<notin> set a \<Longrightarrow> split_sep c (a @ c # b) = a # split_sep c b"
  by (induction a) auto

lemma length_split_sep: "length (split_sep c s) = Suc (count_list s c)"
  by (induction s) (auto split: list.splits)

lemma splitlines_from_nonempty: "s \<noteq> [] \<or> cur \<noteq> [] \<Longrightarrow> splitlines_from cur s \<noteq> []"
proof (induction cur s rule: splitlines_from.induct)
  case (1 cur s)
  show ?case
  proof (cases "s = []")
    case True
    with 1 show ?thesis by (simp add: splitlines_from.simps)
  next
    case False
    show ?thesis
    proof (cases "match_any line_breaks s")
      case None
      with False 1 show ?thesis by (subst splitlines_from.simps) simp
    next
      case (Some b)
      with False show ?thesis by (subst splitlines_from.simps) simp
    qed
  qed
qed

lemma splitlines_nonempty: "m \<noteq> [] \<Longrightarrow> \<exists>l rest. splitlines m = l # rest"
  using splitlines_from_nonempty [of m "[]"] by (cases "splitlines m") (auto simp: splitlines_def)

text \<open>
  The first line \<^verbatim>\<open>splitlines\<close> gives is the text up to the first line boundary:
  no boundary starts inside it, and what follows it is nothing or starts with a boundary.
\<close>

lemma splitlines_from_first:
  "splitlines_from cur s = l # rest \<Longrightarrow>
   \<exists>a t. l = rev cur @ a \<and> s = a @ t
     \<and> (\<forall>i<length a. match_any line_breaks (drop i s) = None)
     \<and> (t = [] \<or> match_any line_breaks t \<noteq> None)"
proof (induction cur s rule: splitlines_from.induct)
  case (1 cur s)
  show ?case
  proof (cases "s = []")
    case True
    with "1.prems" show ?thesis by (simp add: splitlines_from.simps split: if_splits)
  next
    case False
    show ?thesis
    proof (cases "match_any line_breaks s")
      case (Some b)
      with False "1.prems" have "l = rev cur" by (subst (asm) splitlines_from.simps) simp
      with Some show ?thesis by (intro exI [of _ "[]"] exI [of _ s]) simp
    next
      case None
      with False "1.prems" have "splitlines_from (hd s # cur) (tl s) = l # rest"
        by (subst (asm) splitlines_from.simps) simp
      from "1.IH"(1) [OF False None this] obtain a t where
        a: "l = rev (hd s # cur) @ a" "tl s = a @ t"
           "\<forall>i<length a. match_any line_breaks (drop i (tl s)) = None"
           "t = [] \<or> match_any line_breaks t \<noteq> None" by blast
      from False a(2) have s: "s = (hd s # a) @ t" by (cases s) auto
      have "\<forall>i<length (hd s # a). match_any line_breaks (drop i s) = None"
      proof (intro allI impI)
        fix i assume i: "i < length (hd s # a)"
        show "match_any line_breaks (drop i s) = None"
        proof (cases i)
          case 0 with None show ?thesis by simp
        next
          case (Suc j)
          with i have "j < length a" by simp
          with a(3) have "match_any line_breaks (drop j (tl s)) = None" by blast
          with Suc show ?thesis by (simp add: drop_Suc)
        qed
      qed
      with a(1,4) s show ?thesis
        by (intro exI [of _ "hd s # a"] exI [of _ t]) simp
    qed
  qed
qed

lemma splitlines_first:
  "splitlines m = l # rest \<Longrightarrow>
   \<exists>t. m = l @ t \<and> (\<forall>i<length l. match_any line_breaks (drop i m) = None)
     \<and> (t = [] \<or> match_any line_breaks t \<noteq> None)"
  using splitlines_from_first [of "[]" m l rest] by (auto simp: splitlines_def)

section \<open>The derived URL\<close>

text \<open>
  C2. A tap name made of an owner segment and a repository segment with one \<^verbatim>\<open>/\<close>
  between them (neither segment holds a \<^verbatim>\<open>/\<close>) is turned into
  \<^verbatim>\<open>https://github.com/<owner>/homebrew-<repo>\<close>. The segments need not even be
  non-empty for this; in particular it holds for two non-empty segments.
\<close>

theorem infer_tap_url_two_segments:
  assumes "CHR ''/'' \<notin> set owner" and "CHR ''/'' \<notin> set repo"
  shows "infer_tap_url (owner @ ''/'' @ repo)
         = Inr (''https://github.com/'' @ owner @ ''/homebrew-'' @ repo)"
  using assms by (simp add: infer_tap_url_def split_sep_append split_sep_no_sep)

theorem infer_tap_url_two_segments_witness:
  "CHR ''/'' \<notin> set ''alice'' \<and> CHR ''/'' \<notin> set ''tools''
   \<and> infer_tap_url ''alice/tools'' = Inr ''https://github.com/alice/homebrew-tools''"
  using infer_tap_url_two_segments [of "''alice''" "''tools''"] by simp

lemma infer_tap_url_Inl: "infer_tap_url tap = Inl e \<Longrightarrow> e = ValueError"
  by (auto simp: infer_tap_url_def split: list.splits)

lemma infer_tap_url_error:
  "count_list tap CHR ''/'' \<noteq> 1 \<Longrightarrow> infer_tap_url tap = Inl ValueError"
proof -
  assume "count_list tap CHR ''/'' \<noteq> 1"
  then have "length (split_sep CHR ''/'' tap) \<noteq> 2" by (simp add: length_split_sep)
  then show ?thesis
    by (auto simp: infer_tap_url_def split: list.splits)
qed

section \<open>The reachability probe\<close>

lemma check_url_reachable_probe:
  "check_url_reachable w url tr = (Inr (probe_result w url), tr @ [Head url])"
proof (cases "urlopen w url")
  case (Inr status)
  then show ?thesis by (simp add: check_url_reachable_def probe_result_def)
next
  case (Inl m)
  show ?thesis
  proof (cases "m = []")
    case True
    with Inl show ?thesis by (simp add: check_url_reachable_def probe_result_def)
  next
    case False
    then obtain l rest where "splitlines m = l # rest" using splitlines_nonempty by blast
    with Inl False show ?thesis by (simp add: check_url_reachable_def probe_result_def)
  qed
qed

lemma probe_result_True: "probe_result w url = RBool True \<longleftrightarrow> urlopen w url = Inr 200"
  by (auto simp: probe_result_def split: sum.splits)

lemma status_line_ok:
  "starts_with ''[OK]'' (status_line tap url r) \<longleftrightarrow> r = RBool True"
  "starts_with ''[ERROR]'' (status_line tap url r) \<longleftrightarrow> r \<noteq> RBool True"
  by (auto simp: status_line_def starts_with_def)

text \<open>
  C7, as the script has it. \<^verbatim>\<open>check_url_reachable\<close> returns \<^verbatim>\<open>True\<close> exactly when
  the request completes with status 200. A request that completes with another status
  returns \<^verbatim>\<open>False\<close>, which carries no diagnostic. A request that raises returns
  \<^verbatim>\<open>Error:\<close> followed by the first line of the error text (the text up to its first
  line boundary), or \<^verbatim>\<open>Error: Unknown error\<close> when the text is empty. The call makes
  one request and prints nothing, and \<^verbatim>\<open>check_tap\<close> writes an \<^verbatim>\<open>[ERROR]\<close> status
  line for every result other than \<^verbatim>\<open>True\<close>.
\<close>

theorem check_url_reachable_outcomes:
  "(fst (check_url_reachable w url tr) = Inr (RBool True) \<longleftrightarrow> urlopen w url = Inr 200)
   \<and> (\<forall>status. urlopen w url = Inr status \<and> status \<noteq> 200 \<longrightarrow>
         fst (check_url_reachable w url tr) = Inr (RBool False))
   \<and> (\<forall>m. urlopen w url = Inl m \<and> m \<noteq> [] \<longrightarrow>
         (\<exists>l rest t. splitlines m = l # rest \<and> m = l @ t
            \<and> (\<forall>i<length l. match_any line_breaks (drop i m) = None)
            \<and> (t = [] \<or> match_any line_breaks t \<noteq> None)
            \<and> fst (check_url_reachable w url tr) = Inr (RStr (''Error: '' @ l))))
   \<and> (urlopen w url = Inl [] \<longrightarrow>
         fst (check_url_reachable w url tr) = Inr (RStr ''Error: Unknown error''))
   \<and> snd (check_url_reachable w url tr) = tr @ [Head url]
   \<and> (\<forall>tap r. r \<noteq> RBool True \<longrightarrow> starts_with ''[ERROR]'' (status_line tap url r))"
proof -
  have first: "\<exists>l rest t. splitlines m = l # rest \<and> m = l @ t
            \<and> (\<forall>i<length l. match_any line_breaks (drop i m) = None)
            \<and> (t = [] \<or> match_any line_breaks t \<noteq> None)
            \<and> fst (check_url_reachable w url tr) = Inr (RStr (''Error: '' @ l))"
    if m: "urlopen w url = Inl m" "m \<noteq> []" for m
  proof -
    from m(2) obtain l rest where l: "splitlines m = l # rest"
      using splitlines_nonempty by blast
    from splitlines_first [OF l] obtain t where
      "m = l @ t" "\<forall>i<length l. match_any line_breaks (drop i m) = None"
      "t = [] \<or> match_any line_breaks t \<noteq> None" by blast
    moreover have "fst (check_url_reachable w url tr) = Inr (RStr (''Error: '' @ l))"
      using m l by (simp add: check_url_reachable_probe probe_result_def)
    ultimately show ?thesis using l by blast
  qed
  have "fst (check_url_reachable w url tr) = Inr (RBool True) \<longleftrightarrow> urlopen w url = Inr 200"
    by (simp add: check_url_reachable_probe probe_result_True)
  moreover have "\<forall>status. urlopen w url = Inr status \<and> status \<noteq> 200 \<longrightarrow>
         fst (check_url_reachable w url tr) = Inr (RBool False)"
    by (simp add: check_url_reachable_probe probe_result_def)
  moreover have "urlopen w url = Inl [] \<longrightarrow>
         fst (check_url_reachable w url tr) = Inr (RStr ''Error: Unknown error'')"
    by (simp add: check_url_reachable_probe probe_result_def)
  moreover have "snd (check_url_reachable w url tr) = tr @ [Head url]"
    by (simp add: check_url_reachable_probe)
  moreover have "\<forall>tap r. r \<noteq> RBool True \<longrightarrow> starts_with ''[ERROR]'' (status_line tap url r)"
    by (simp add: status_line_ok)
  ultimately show ?thesis using first by blast
qed

theorem check_url_reachable_outcomes_witness:
  "urlopen demo ''https://github.com/alice/homebrew-tools'' = Inl ''HTTP Error 404: Not Found''
   \<and> ''HTTP Error 404: Not Found'' \<noteq> []
   \<and> fst (check_url_reachable demo ''https://github.com/alice/homebrew-tools'' [])
       = Inr (RStr ''Error: HTTP Error 404: Not Found'')
   \<and> urlopen demo ''https://github.com/homebrew/homebrew-core'' = Inr 200
   \<and> fst (check_url_reachable demo ''https://github.com/homebrew/homebrew-core'' [])
       = Inr (RBool True)"
proof -
  let ?u = "''https://github.com/alice/homebrew-tools''"
  let ?c = "''https://github.com/homebrew/homebrew-core''"
  have h: "urlopen demo ?u = Inl ''HTTP Error 404: Not Found''" by (simp add: demo_def)
  have c: "urlopen demo ?c = Inr 200" by (simp add: demo_def)
  have ne: "''HTTP Error 404: Not Found'' \<noteq> []" by simp
  have lines: "splitlines ''HTTP Error 404: Not Found'' = [''HTTP Error 404: Not Found'']"
    by code_simp
  from check_url_reachable_outcomes [of demo ?u "[]"] h ne
  obtain l rest where "splitlines ''HTTP Error 404: Not Found'' = l # rest"
    "fst (check_url_reachable demo ?u []) = Inr (RStr (''Error: '' @ l))" by blast
  with lines have "fst (check_url_reachable demo ?u []) = Inr (RStr ''Error: HTTP Error 404: Not Found'')"
    by simp
  moreover from check_url_reachable_outcomes [of demo ?c "[]"] c
  have "fst (check_url_reachable demo ?c []) = Inr (RBool True)" by blast
  ultimately show ?thesis using h c by simp
qed

text \<open>
  Where the sentence of C7 fails as written: a 204 answer is a completed request with a
  status other than 200, and the result is the bare \<^verbatim>\<open>False\<close>, not a diagnostic
  string drawn from an error.
\<close>

theorem check_url_reachable_no_diagnostic:
  "urlopen no_content ''https://github.com/alice/homebrew-tools'' = Inr 204
   \<and> fst (check_url_reachable no_content ''https://github.com/alice/homebrew-tools'' [])
       = Inr (RBool False)"
  by (simp add: check_url_reachable_def no_content_def demo_def)

section \<open>Grouping installed items by tap\<close>

subsection \<open>The dictionary of taps\<close>

lemma get_list_notin_dom: "k \<notin> dom m \<Longrightarrow> get_list m k = []"
  by (auto simp: get_list_def split: option.splits)

lemma dom_append_item: "dom (append_item m k x) = insert k (dom m)"
  by (simp add: append_item_def)

lemma get_list_append_item:
  "get_list (append_item m k x) k' = get_list m k' @ (if k' = k then [x] else [])"
  by (simp add: append_item_def get_list_def)

lemma foldl_append_item_upd:
  "foldl (\<lambda>m item. append_item m k item) (m(k \<mapsto> ys)) xs = m(k \<mapsto> ys @ xs)"
  by (induction xs arbitrary: ys) (simp_all add: append_item_def)

lemma foldl_append_item:
  "xs \<noteq> [] \<Longrightarrow>
   foldl (\<lambda>m item. append_item m k item) m xs = m(k \<mapsto> get_list m k @ xs)"
proof (cases xs)
  case Nil
  then show "xs \<noteq> [] \<Longrightarrow> ?thesis" by simp
next
  case (Cons x xs')
  have "foldl (\<lambda>m item. append_item m k item) m (x # xs')
        = foldl (\<lambda>m item. append_item m k item) (m(k \<mapsto> get_list m k @ [x])) xs'"
    by (simp add: append_item_def get_list_def)
  then show ?thesis using Cons by (simp add: foldl_append_item_upd)
qed

lemma all_attributed_superset:
  assumes "finite A" "dom m \<subseteq> A"
  shows "all_attributed m = (\<Sum>k \<in> A. mset (get_list m k))"
proof -
  have "(\<Sum>k \<in> A. mset (get_list m k)) = (\<Sum>k \<in> dom m. mset (get_list m k))"
    using assms by (intro sum.mono_neutral_right) (auto simp: get_list_notin_dom)
  then show ?thesis by (simp add: all_attributed_def)
qed

lemma all_attributed_empty: "all_attributed Map.empty = {#}"
  by (simp add: all_attributed_def)

lemma all_attributed_single: "all_attributed [k \<mapsto> xs] = mset xs"
  by (simp add: all_attributed_def get_list_def)

lemma all_attributed_append_item:
  assumes "finite (dom m)"
  shows "all_attributed (append_item m k x) = all_attributed m + {#x#}"
proof -
  let ?A = "insert k (dom m)"
  have fin: "finite ?A" using assms by simp
  have "all_attributed (append_item m k x)
        = (\<Sum>k' \<in> ?A. mset (get_list (append_item m k x) k'))"
    by (rule all_attributed_superset [OF fin]) (simp add: dom_append_item)
  also have "\<dots> = (\<Sum>k' \<in> ?A. mset (get_list m k') + (if k' = k then {#x#} else {#}))"
    by (intro sum.cong) (auto simp: get_list_append_item)
  also have "\<dots> = (\<Sum>k' \<in> ?A. mset (get_list m k'))
                 + (\<Sum>k' \<in> ?A. if k' = k then {#x#} else {#})"
    by (rule sum.distrib)
  also have "(\<Sum>k' \<in> ?A. if k' = k then {#x#} else {#}) = {#x#}"
    using fin by (simp add: sum.delta)
  also have "(\<Sum>k' \<in> ?A. mset (get_list m k')) = all_attributed m"
    by (rule all_attributed_superset [symmetric, OF fin]) auto
  finally show ?thesis .
qed

lemma one_tap_attributed:
  assumes fin: "finite (dom m)"
  shows "mset (get_list m k) \<subseteq># all_attributed m"
proof -
  let ?A = "insert k (dom m)"
  let ?f = "\<lambda>k. mset (get_list m k)"
  have "all_attributed m = sum ?f ?A"
    using fin by (intro all_attributed_superset) auto
  also have "\<dots> = ?f k + sum ?f (?A - {k})"
    using fin by (intro sum.remove) auto
  finally show ?thesis by simp
qed

lemma two_taps_attributed:
  assumes fin: "finite (dom m)" and ne: "k \<noteq> k'"
  shows "mset (get_list m k) + mset (get_list m k') \<subseteq># all_attributed m"
proof -
  let ?A = "insert k (insert k' (dom m))"
  let ?f = "\<lambda>k. mset (get_list m k)"
  have "all_attributed m = sum ?f ?A"
    using fin by (intro all_attributed_superset) auto
  also have "\<dots> = ?f k + sum ?f (?A - {k})"
    using fin by (intro sum.remove) auto
  also have "sum ?f (?A - {k}) = ?f k' + sum ?f (?A - {k} - {k'})"
    using fin ne by (intro sum.remove) auto
  finally have "all_attributed m = (?f k + ?f k') + sum ?f (?A - {k} - {k'})"
    by (simp add: add.assoc)
  then show ?thesis by simp
qed

lemma mset_drop_Suc_subset: "mset (drop (Suc i) xs) \<subseteq># mset (drop i xs)"
proof (cases "i < length xs")
  case True
  then have "drop i xs = xs ! i # drop (Suc i) xs" by (simp add: Cons_nth_drop_Suc)
  then show ?thesis by simp
next
  case False
  then show ?thesis by simp
qed

lemma mset_subset_distinct:
  assumes "mset xs \<subseteq># mset ys" "distinct ys"
  shows "distinct xs"
proof -
  have "count (mset xs) a = (if a \<in> set xs then 1 else 0)" for a
  proof (cases "a \<in> set xs")
    case True
    then have "0 < count (mset xs) a" by simp
    moreover have "count (mset xs) a \<le> count (mset ys) a"
      using assms(1) by (rule mset_subset_eq_count)
    moreover have "count (mset ys) a \<le> 1"
      using assms(2) by (simp add: distinct_count_atmost_1)
    ultimately have "count (mset xs) a = 1" by linarith
    with True show ?thesis by simp
  next
    case False
    then show ?thesis by (simp add: count_mset count_list_0_iff)
  qed
  then show ?thesis by (simp add: distinct_count_atmost_1)
qed

subsection \<open>The loop over the records\<close>

lemma py_get_Inl: "py_get a k d = Inl e \<Longrightarrow> e = AttributeError"
  by (cases a) auto

lemma py_hash_Inl: "py_hash a = Inl e \<Longrightarrow> e = TypeError"
  by (cases a) auto

lemma py_add_Inl: "py_add a b = Inl e \<Longrightarrow> e = TypeError"
  by (cases a; cases b) (auto split: if_splits)

lemma py_iter_Inl: "py_iter a = Inl e \<Longrightarrow> e = TypeError"
  by (cases a) auto

text \<open>
  No exception the loop or the reading of the document raises is one the
  \<^verbatim>\<open>except\<close> clause names: they end the run.
\<close>

lemma attribute_not_caught: "attribute items xs m = (Some e, m') \<Longrightarrow> \<not> caught e"
proof (induction items xs m rule: attribute.induct)
  case (1 items m)
  then show ?case by simp
next
  case (2 items idx info rest m)
  then show ?case
    by (auto split: sum.splits if_splits dest: py_get_Inl py_hash_Inl)
qed

lemma all_records_not_caught: "all_records d = Inl e \<Longrightarrow> \<not> caught e"
  by (auto simp: all_records_def split: sum.splits dest: py_get_Inl py_add_Inl py_iter_Inl)

text \<open>
  Whatever the loop does, the names it has attributed so far are drawn, each position
  at most once, from the items not yet passed.
\<close>

lemma attribute_invariant:
  "attribute items (enumerate i infos) m = (eo, m') \<Longrightarrow> finite (dom m) \<Longrightarrow>
   finite (dom m') \<and> all_attributed m' \<subseteq># all_attributed m + mset (drop i items)"
proof (induction infos arbitrary: i m)
  case Nil
  then show ?case by simp
next
  case (Cons info infos)
  show ?case
  proof (cases "py_get info ''installed'' (JArr [])")
    case (Inl e)
    with Cons.prems show ?thesis by simp
  next
    case inst: (Inr installed)
    show ?thesis
    proof (cases "truthy installed \<and> i < length items")
      case False
      with inst Cons.prems have "attribute items (enumerate (Suc i) infos) m = (eo, m')"
        by simp
      from Cons.IH [OF this Cons.prems(2)]
      have "finite (dom m')"
        "all_attributed m' \<subseteq># all_attributed m + mset (drop (Suc i) items)"
        by simp_all
      moreover have "mset (drop (Suc i) items) \<subseteq># mset (drop i items)"
        by (rule mset_drop_Suc_subset)
      ultimately show ?thesis
        using subset_mset.add_left_mono subset_mset.order_trans by blast
    next
      case True
      show ?thesis
      proof (cases "py_get info ''tap'' (JStr core)")
        case (Inl e)
        with inst True Cons.prems show ?thesis by simp
      next
        case tap: (Inr tap)
        show ?thesis
        proof (cases "py_hash tap")
          case (Inl e)
          with inst True tap Cons.prems show ?thesis by simp
        next
          case (Inr k)
          let ?m1 = "append_item m k (items ! i)"
          from inst True tap Inr Cons.prems
          have "attribute items (enumerate (Suc i) infos) ?m1 = (eo, m')" by simp
          moreover have fin1: "finite (dom ?m1)"
            using Cons.prems(2) by (simp add: dom_append_item)
          ultimately have "finite (dom m')"
            "all_attributed m' \<subseteq># all_attributed ?m1 + mset (drop (Suc i) items)"
            using Cons.IH by blast+
          moreover have "all_attributed ?m1 + mset (drop (Suc i) items)
                         = all_attributed m + mset (drop i items)"
            using True Cons.prems(2)
            by (simp add: all_attributed_append_item Cons_nth_drop_Suc [symmetric])
          ultimately show ?thesis by simp
        qed
      qed
    qed
  qed
qed

text \<open>
  When the loop runs to its end, the list of a tap is what it was, followed by the
  items whose record (at the same position) is installed and names that tap.
\<close>

lemma attribute_records:
  "attribute items (enumerate i infos) m = (None, m') \<Longrightarrow>
   get_list m' k = get_list m k
     @ map fst (filter (\<lambda>p. record_installed (snd p) \<and> record_tap (snd p) = Some k)
                  (zip (drop i items) infos))"
proof (induction infos arbitrary: i m)
  case Nil
  then show ?case by simp
next
  case (Cons info infos)
  show ?case
  proof (cases "py_get info ''installed'' (JArr [])")
    case (Inl e)
    with Cons.prems show ?thesis by simp
  next
    case inst: (Inr installed)
    show ?thesis
    proof (cases "i < length items")
      case False
      with inst Cons.prems have "attribute items (enumerate (Suc i) infos) m = (None, m')"
        by simp
      from Cons.IH [OF this] False show ?thesis by simp
    next
      case len: True
      then have dr: "drop i items = items ! i # drop (Suc i) items"
        by (simp add: Cons_nth_drop_Suc)
      show ?thesis
      proof (cases "truthy installed")
        case False
        with inst Cons.prems
        have "attribute items (enumerate (Suc i) infos) m = (None, m')" by simp
        from Cons.IH [OF this] False inst show ?thesis
          by (simp add: dr record_installed_def)
      next
        case True
        show ?thesis
        proof (cases "py_get info ''tap'' (JStr core)")
          case (Inl e)
          with inst True len Cons.prems show ?thesis by simp
        next
          case tap: (Inr tap)
          show ?thesis
          proof (cases "py_hash tap")
            case (Inl e)
            with inst True len tap Cons.prems show ?thesis by simp
          next
            case (Inr k0)
            with inst True len tap Cons.prems
            have "attribute items (enumerate (Suc i) infos) (append_item m k0 (items ! i))
                  = (None, m')"
              by simp
            from Cons.IH [OF this] inst True tap Inr show ?thesis
              by (auto simp: dr record_installed_def record_tap_def get_list_append_item)
          qed
        qed
      qed
    qed
  qed
qed

lemma attributed_position:
  assumes d: "distinct items" and i: "i < length items"
  shows "items ! i \<in> set (map fst (filter P (zip items infos)))
         \<longleftrightarrow> i < length infos \<and> P (items ! i, infos ! i)"
proof
  assume "items ! i \<in> set (map fst (filter P (zip items infos)))"
  then obtain info where
    mem: "(items ! i, info) \<in> set (zip items infos)" and P: "P (items ! i, info)"
    by auto
  from mem obtain j where
    j: "j < length items" "j < length infos" "items ! j = items ! i" "infos ! j = info"
    by (auto simp: in_set_zip)
  with d i have "j = i" by (simp add: nth_eq_iff_index_eq)
  with j P show "i < length infos \<and> P (items ! i, infos ! i)" by simp
next
  assume a: "i < length infos \<and> P (items ! i, infos ! i)"
  with i have "(items ! i, infos ! i) \<in> set (zip items infos)"
    by (auto simp: in_set_zip)
  with a show "items ! i \<in> set (map fst (filter P (zip items infos)))" by force
qed

subsection \<open>The three ways a grouping comes back\<close>

lemma group_items_by_tap_cases:
  assumes "group_items_by_tap w items tr = (Inr m, tr')"
  obtains (empty) "items = []" "m = Map.empty"
  | (fallback) "items \<noteq> []" "response_records w items = None" "m = [KStr core \<mapsto> items]"
  | (grouped) infos where "items \<noteq> []" "response_records w items = Some infos"
      "attribute items (enumerate 0 infos) Map.empty = (None, m)"
proof (cases "items = []")
  case True
  with assms have "m = Map.empty" by (simp add: group_items_by_tap_def)
  with True show ?thesis by (rule empty)
next
  case ne: False
  let ?argv = "[''brew'', ''info'', ''--json=v2''] @ items"
  have fb: "foldl (\<lambda>m item. append_item m (KStr core) item) Map.empty items
            = [KStr core \<mapsto> items]"
    using ne by (simp add: foldl_append_item get_list_def)
  show ?thesis
  proof (cases "subprocess_run w ?argv")
    case (Inl e)
    with assms ne have "m = [KStr core \<mapsto> items]"
      by (auto simp: group_items_by_tap_def try_group_def run_def and_then_def print_def fb
          split: if_splits)
    moreover from Inl have "response_records w items = None"
      by (simp add: response_records_def)
    ultimately show ?thesis using ne by (intro fallback)
  next
    case out: (Inr out)
    show ?thesis
    proof (cases "json_loads w out")
      case (Inl e)
      with assms ne out have "m = [KStr core \<mapsto> items]"
        by (auto simp: group_items_by_tap_def try_group_def run_def and_then_def print_def fb
            split: if_splits)
      moreover from out Inl have "response_records w items = None"
        by (simp add: response_records_def)
      ultimately show ?thesis using ne by (intro fallback)
    next
      case doc: (Inr info_data)
      show ?thesis
      proof (cases "all_records info_data")
        case (Inl e)
        then have "\<not> caught e" by (rule all_records_not_caught)
        with assms ne out doc Inl show ?thesis
          by (simp add: group_items_by_tap_def try_group_def run_def group_parsed_def)
      next
        case (Inr infos)
        obtain eo m1 where a: "attribute items (enumerate 0 infos) Map.empty = (eo, m1)"
          by (cases "attribute items (enumerate 0 infos) Map.empty") auto
        show ?thesis
        proof (cases eo)
          case None
          with assms ne out doc Inr a have "m = m1"
            by (simp add: group_items_by_tap_def try_group_def run_def group_parsed_def)
          moreover from out doc Inr have "response_records w items = Some infos"
            by (simp add: response_records_def)
          ultimately show ?thesis using ne a None by (intro grouped) auto
        next
          case (Some e)
          with a have "\<not> caught e" using attribute_not_caught by blast
          with assms ne out doc Inr a Some show ?thesis
            by (simp add: group_items_by_tap_def try_group_def run_def group_parsed_def)
        qed
      qed
    qed
  qed
qed

lemma group_items_by_tap_total:
  assumes "group_items_by_tap w items tr = (Inr m, tr')"
  shows "finite (dom m) \<and> all_attributed m \<subseteq># mset items"
  using assms
proof (cases rule: group_items_by_tap_cases)
  case empty
  then show ?thesis by (simp add: all_attributed_empty)
next
  case fallback
  then show ?thesis by (simp add: all_attributed_single)
next
  case (grouped infos)
  from attribute_invariant [OF grouped(3)] show ?thesis
    by (simp add: all_attributed_empty)
qed

lemma group_demo_formulae:
  "group_items_by_tap demo [''wget'', ''jq''] []
   = (Inr demo_formulae, [Run [''brew'', ''info'', ''--json=v2'', ''wget'', ''jq'']])"
  by (simp add: group_items_by_tap_def try_group_def run_def demo_def group_parsed_def
      all_records_def formulae_doc_def append_item_def demo_formulae_def)

lemma group_demo_casks:
  "group_items_by_tap demo [''firefox''] []
   = (Inr demo_casks, [Run [''brew'', ''info'', ''--json=v2'', ''firefox'']])"
  by (simp add: group_items_by_tap_def try_group_def run_def demo_def group_parsed_def
      all_records_def casks_doc_def append_item_def demo_casks_def)

subsection \<open>The claims about the grouping\<close>

text \<open>
  C5. For an empty list of items \<^verbatim>\<open>group_items_by_tap\<close> returns the empty mapping
  and leaves the trace as it was: no \<^verbatim>\<open>subprocess.run\<close> call (and no other effect)
  happens, whatever the world would have answered.
\<close>

theorem group_items_by_tap_empty: "group_items_by_tap w [] tr = (Inr Map.empty, tr)"
  by (simp add: group_items_by_tap_def)

text \<open>
  The fallback of \<^verbatim>\<open>group_items_by_tap\<close>. For a non-empty list of items, when the
  bulk query exits with an error (\<^verbatim>\<open>CalledProcessError\<close>) or prints something
  \<^verbatim>\<open>json.loads\<close> rejects (\<^verbatim>\<open>JSONDecodeError\<close>), the grouping is the single tap
  \<^verbatim>\<open>homebrew/core\<close> holding all the items in their order, the error text is printed,
  and the function returns normally.
\<close>

lemma group_items_by_tap_fallback:
  assumes "items \<noteq> []"
    and "subprocess_run w ([''brew'', ''info'', ''--json=v2''] @ items)
           = Inl (CalledProcessError msg)
         \<or> (\<exists>out. subprocess_run w ([''brew'', ''info'', ''--json=v2''] @ items) = Inr out
                \<and> json_loads w out = Inl (JSONDecodeError msg))"
  shows "group_items_by_tap w items tr =
           (Inr [KStr core \<mapsto> items],
            tr @ [Run ([''brew'', ''info'', ''--json=v2''] @ items),
                  Print (''Error grouping items: '' @ msg)])"
  using assms
  by (auto simp: group_items_by_tap_def try_group_def run_def and_then_def print_def
      foldl_append_item get_list_def)

lemma group_items_by_tap_fallback_example:
  "[''wget'', ''jq''] \<noteq> []
   \<and> subprocess_run garbled ([''brew'', ''info'', ''--json=v2''] @ [''wget'', ''jq''])
       = Inr ''Warning: something else''
   \<and> json_loads garbled ''Warning: something else''
       = Inl (JSONDecodeError ''Expecting value: line 1 column 1 (char 0)'')
   \<and> group_items_by_tap garbled [''wget'', ''jq''] []
       = (Inr [KStr core \<mapsto> [''wget'', ''jq'']],
          [Run [''brew'', ''info'', ''--json=v2'', ''wget'', ''jq''],
           Print ''Error grouping items: Expecting value: line 1 column 1 (char 0)''])
   \<and> subprocess_run failing ([''brew'', ''info'', ''--json=v2''] @ [''firefox''])
       = Inl (CalledProcessError ''Command returned non-zero exit status 1.'')
   \<and> group_items_by_tap failing [''firefox''] []
       = (Inr [KStr core \<mapsto> [''firefox'']],
          [Run [''brew'', ''info'', ''--json=v2'', ''firefox''],
           Print ''Error grouping items: Command returned non-zero exit status 1.''])"
proof -
  have ne: "[''wget'', ''jq''] \<noteq> []" "[''firefox''] \<noteq> []" by simp_all
  have out: "subprocess_run garbled ([''brew'', ''info'', ''--json=v2''] @ [''wget'', ''jq''])
             = Inr ''Warning: something else''"
    by (simp add: garbled_def demo_def)
  have bad: "json_loads garbled ''Warning: something else''
             = Inl (JSONDecodeError ''Expecting value: line 1 column 1 (char 0)'')"
    by (simp add: garbled_def demo_def)
  have exit1: "subprocess_run failing ([''brew'', ''info'', ''--json=v2''] @ [''firefox''])
               = Inl (CalledProcessError ''Command returned non-zero exit status 1.'')"
    by (simp add: failing_def demo_def)
  from out bad have
    "subprocess_run garbled ([''brew'', ''info'', ''--json=v2''] @ [''wget'', ''jq''])
       = Inl (CalledProcessError ''Expecting value: line 1 column 1 (char 0)'')
     \<or> (\<exists>out. subprocess_run garbled ([''brew'', ''info'', ''--json=v2''] @ [''wget'', ''jq''])
                 = Inr out
            \<and> json_loads garbled out
                 = Inl (JSONDecodeError ''Expecting value: line 1 column 1 (char 0)''))"
    by blast
  from group_items_by_tap_fallback [OF ne(1) this, of "[]"]
       group_items_by_tap_fallback [OF ne(2) disjI1, OF exit1, of "[]"]
  show ?thesis using out bad exit1 by simp
qed

text \<open>
  The fallback is for these two failures only. When the output of the query parses
  to a value that is not an object (a list, a string, a number, \<^verbatim>\<open>true\<close>,
  \<^verbatim>\<open>null\<close>), \<^verbatim>\<open>info_data.get\<close> raises \<^verbatim>\<open>AttributeError\<close>. The
  \<^verbatim>\<open>except\<close> clause names \<^verbatim>\<open>CalledProcessError\<close>, \<^verbatim>\<open>JSONDecodeError\<close> and
  \<^verbatim>\<open>KeyError\<close>, so the exception leaves the function: nothing is printed and no item
  is attributed. \<^verbatim>\<open>KeyError\<close>, the one name of the clause that is about the shape of
  the document, is never raised, every access being a \<^verbatim>\<open>.get\<close> with a default.
\<close>

lemma group_items_by_tap_not_object:
  assumes "items \<noteq> []"
    and "subprocess_run w ([''brew'', ''info'', ''--json=v2''] @ items) = Inr out"
    and "json_loads w out = Inr info_data"
    and "\<forall>kvs. info_data \<noteq> JObj kvs"
  shows "group_items_by_tap w items tr =
           (Inl AttributeError, tr @ [Run ([''brew'', ''info'', ''--json=v2''] @ items)])"
proof -
  have "py_get info_data ''formulae'' (JArr []) = Inl AttributeError"
    using assms(4) by (cases info_data) simp_all
  then show ?thesis
    using assms(1-3)
    by (simp add: group_items_by_tap_def try_group_def run_def group_parsed_def
        all_records_def)
qed

text \<open>
  An object whose \<^verbatim>\<open>formulae\<close> is not a list (here another object) makes
  \<^verbatim>\<open>formulae_info + casks_info\<close> raise \<^verbatim>\<open>TypeError\<close>, which leaves the function
  the same way. The empty object is read as an empty response: the grouping is empty
  and nothing is printed.
\<close>

lemma group_items_by_tap_not_arrays:
  assumes "items \<noteq> []"
    and "subprocess_run w ([''brew'', ''info'', ''--json=v2''] @ items) = Inr out"
    and "json_loads w out = Inr (JObj [(''formulae'', JObj [])])"
  shows "group_items_by_tap w items tr =
           (Inl TypeError, tr @ [Run ([''brew'', ''info'', ''--json=v2''] @ items)])"
  using assms
  by (simp add: group_items_by_tap_def try_group_def run_def group_parsed_def
      all_records_def)

lemma group_items_by_tap_empty_object:
  "group_items_by_tap bare [''wget''] []
   = (Inr Map.empty, [Run [''brew'', ''info'', ''--json=v2'', ''wget'']])"
  by (simp add: group_items_by_tap_def try_group_def run_def bare_def demo_def
      group_parsed_def all_records_def)

text \<open>
  C4. The specification has every item fall back to \<^verbatim>\<open>homebrew/core\<close>, with the
  error reported and the run going on, when the response cannot be read as the
  expected structured data. The code does not. On the machine \<open>listed\<close>, where \<^verbatim>\<open>brew info\<close>
  exits with status 0 and its output parses to a JSON list, \<^verbatim>\<open>group_items_by_tap\<close>
  called on the two installed formulae raises \<^verbatim>\<open>AttributeError\<close> after the query,
  with nothing printed and no item attributed, and the run of \<^verbatim>\<open>main\<close> ends with
  that exception after its fourth call of \<^verbatim>\<open>brew\<close>, before any tap is checked.
\<close>

theorem group_items_by_tap_unexpected_shape:
  "subprocess_run listed ([''brew'', ''info'', ''--json=v2''] @ [''wget'', ''jq''])
     = Inr ''formulae.json''
   \<and> json_loads listed ''formulae.json'' = Inr (JArr [])
   \<and> group_items_by_tap listed [''wget'', ''jq'']
       [Run [''brew'', ''tap''], Run [''brew'', ''list'', ''--formula''],
        Run [''brew'', ''list'', ''--cask'']]
     = (Inl AttributeError,
        [Run [''brew'', ''tap''], Run [''brew'', ''list'', ''--formula''],
         Run [''brew'', ''list'', ''--cask''],
         Run [''brew'', ''info'', ''--json=v2'', ''wget'', ''jq'']])
   \<and> main listed []
     = (Inl AttributeError,
        [Run [''brew'', ''tap''], Run [''brew'', ''list'', ''--formula''],
         Run [''brew'', ''list'', ''--cask''],
         Run [''brew'', ''info'', ''--json=v2'', ''wget'', ''jq'']])"
proof -
  have out: "subprocess_run listed ([''brew'', ''info'', ''--json=v2''] @ [''wget'', ''jq''])
             = Inr ''formulae.json''"
    by (simp add: listed_def demo_def)
  have doc: "json_loads listed ''formulae.json'' = Inr (JArr [])"
    by (simp add: listed_def)
  have g: "group_items_by_tap listed [''wget'', ''jq'']
       [Run [''brew'', ''tap''], Run [''brew'', ''list'', ''--formula''],
        Run [''brew'', ''list'', ''--cask'']]
     = (Inl AttributeError,
        [Run [''brew'', ''tap''], Run [''brew'', ''list'', ''--formula''],
         Run [''brew'', ''list'', ''--cask''],
         Run [''brew'', ''info'', ''--json=v2'', ''wget'', ''jq'']])"
    using group_items_by_tap_not_object [OF _ out doc] by simp
  have t: "get_homebrew_taps listed [] = (Inr [''alice/tools''], [Run [''brew'', ''tap'']])"
    by code_simp
  have f: "get_installed_items listed ''formula'' [Run [''brew'', ''tap'']]
     = (Inr [''wget'', ''jq''],
        [Run [''brew'', ''tap''], Run [''brew'', ''list'', ''--formula'']])"
    by code_simp
  have c: "get_installed_items listed ''cask''
       [Run [''brew'', ''tap''], Run [''brew'', ''list'', ''--formula'']]
     = (Inr [''firefox''],
        [Run [''brew'', ''tap''], Run [''brew'', ''list'', ''--formula''],
         Run [''brew'', ''list'', ''--cask'']])"
    by code_simp
  have m: "main listed []
     = (Inl AttributeError,
        [Run [''brew'', ''tap''], Run [''brew'', ''list'', ''--formula''],
         Run [''brew'', ''list'', ''--cask''],
         Run [''brew'', ''info'', ''--json=v2'', ''wget'', ''jq'']])"
    by (simp add: main_def and_then_def t f c g)
  show ?thesis by (intro conjI out doc g m)
qed

text \<open>
  C10. Whatever the world answers, when \<^verbatim>\<open>group_items_by_tap\<close> returns a grouping,
  every name in the list of any tap is one of the input items, and the names of all
  the lists together, counted with their multiplicities, form a sub-multiset of the
  input: no position of the input is attributed twice. For an input without repeated
  names this says that no list holds a name twice and no two lists share a name.
\<close>

theorem group_items_by_tap_names:
  assumes "group_items_by_tap w items tr = (Inr m, tr')"
  shows "(\<forall>k xs. m k = Some xs \<longrightarrow> set xs \<subseteq> set items)
       \<and> finite (dom m) \<and> all_attributed m \<subseteq># mset items
       \<and> (distinct items \<longrightarrow>
            (\<forall>k xs. m k = Some xs \<longrightarrow> distinct xs)
          \<and> (\<forall>k k'. k \<noteq> k' \<longrightarrow> set (get_list m k) \<inter> set (get_list m k') = {}))"
proof -
  from group_items_by_tap_total [OF assms]
  have fin: "finite (dom m)" and tot: "all_attributed m \<subseteq># mset items" by simp_all
  have sub: "mset (get_list m k) \<subseteq># mset items" for k
    using one_tap_attributed [OF fin, of k] tot by (rule subset_mset.order_trans)
  have names: "set xs \<subseteq> set items" if "m k = Some xs" for k xs
    using set_mset_mono [OF sub [of k]] that by (simp add: get_list_def)
  have dist: "distinct xs" if "distinct items" "m k = Some xs" for k xs
    using mset_subset_distinct [OF sub [of k] that(1)] that(2) by (simp add: get_list_def)
  have disj: "set (get_list m k) \<inter> set (get_list m k') = {}"
    if d: "distinct items" and ne: "k \<noteq> k'" for k k'
  proof (rule ccontr)
    assume "set (get_list m k) \<inter> set (get_list m k') \<noteq> {}"
    then obtain x where x: "x \<in> set (get_list m k)" "x \<in> set (get_list m k')" by auto
    have "mset (get_list m k) + mset (get_list m k') \<subseteq># mset items"
      using two_taps_attributed [OF fin ne] tot by (rule subset_mset.order_trans)
    then have "count (mset (get_list m k) + mset (get_list m k')) x \<le> count (mset items) x"
      by (rule mset_subset_eq_count)
    moreover have "count (mset items) x \<le> 1" using d by (simp add: distinct_count_atmost_1)
    moreover have "0 < count (mset (get_list m k)) x" "0 < count (mset (get_list m k')) x"
      using x by simp_all
    ultimately show False by simp
  qed
  from fin tot names dist disj show ?thesis by blast
qed

theorem group_items_by_tap_names_witness:
  "group_items_by_tap demo [''wget'', ''jq''] []
     = (Inr demo_formulae, [Run [''brew'', ''info'', ''--json=v2'', ''wget'', ''jq'']])
   \<and> demo_formulae (KStr ''alice/tools'') = Some [''jq'']
   \<and> set [''jq''] \<subseteq> set [''wget'', ''jq'']
   \<and> finite (dom demo_formulae)
   \<and> all_attributed demo_formulae \<subseteq># mset [''wget'', ''jq'']
   \<and> distinct [''wget'', ''jq'']
   \<and> set (get_list demo_formulae (KStr core))
       \<inter> set (get_list demo_formulae (KStr ''alice/tools'')) = {}"
proof -
  have alice: "demo_formulae (KStr ''alice/tools'') = Some [''jq'']"
    by (simp add: demo_formulae_def)
  have d: "distinct [''wget'', ''jq'']" by simp
  have ne: "KStr core \<noteq> KStr ''alice/tools''" by simp
  note all = group_items_by_tap_names [OF group_demo_formulae]
  note names = all [THEN conjunct1, rule_format, OF alice]
  note fin = all [THEN conjunct2, THEN conjunct1]
  note total = all [THEN conjunct2, THEN conjunct2, THEN conjunct1]
  note apart = all [THEN conjunct2, THEN conjunct2, THEN conjunct2, rule_format, OF d,
      THEN conjunct2, rule_format, OF ne]
  show ?thesis
    by (intro conjI group_demo_formulae alice names fin total d apart)
qed

text \<open>
  C1, as the script has it. When a grouping comes back for a list of distinct item
  names: no name is in the lists of two taps; when the bulk query gave a sequence of
  records, the item at a position is in the list of a tap exactly when the record at
  that position exists, reports the item installed and names that tap
  (\<^verbatim>\<open>homebrew/core\<close> when it has no \<^verbatim>\<open>tap\<close> field); and when the query failed,
  every item is in the list of \<^verbatim>\<open>homebrew/core\<close> and of no other tap. An item whose
  record does not report it installed, or that has no record, is in no list.
\<close>

theorem group_items_by_tap_attribution:
  assumes run: "group_items_by_tap w items tr = (Inr m, tr')" and d: "distinct items"
  shows "(\<forall>x k k'. x \<in> set (get_list m k) \<and> x \<in> set (get_list m k') \<longrightarrow> k = k')
       \<and> (\<forall>infos. response_records w items = Some infos \<longrightarrow>
            (\<forall>i<length items. \<forall>k.
               items ! i \<in> set (get_list m k)
               \<longleftrightarrow> i < length infos \<and> record_installed (infos ! i)
                   \<and> record_tap (infos ! i) = Some k))
       \<and> (response_records w items = None \<longrightarrow>
            (\<forall>k. get_list m k = (if k = KStr core then items else [])))
       \<and> (\<forall>kvs. map_of kvs ''tap'' = None \<longrightarrow> record_tap (JObj kvs) = Some (KStr core))
       \<and> (\<forall>kvs t. map_of kvs ''tap'' = Some (JStr t) \<longrightarrow> record_tap (JObj kvs) = Some (KStr t))"
proof -
  have tap_field:
    "(\<forall>kvs. map_of kvs ''tap'' = None \<longrightarrow> record_tap (JObj kvs) = Some (KStr core))
     \<and> (\<forall>kvs t. map_of kvs ''tap'' = Some (JStr t) \<longrightarrow> record_tap (JObj kvs) = Some (KStr t))"
    by (simp add: record_tap_def)
  from run show ?thesis
  proof (cases rule: group_items_by_tap_cases)
    case empty
    with tap_field show ?thesis by (simp add: get_list_def)
  next
    case fallback
    with tap_field show ?thesis by (simp add: get_list_def)
  next
    case (grouped infos)
    have gl: "get_list m k
        = map fst (filter (\<lambda>p. record_installed (snd p) \<and> record_tap (snd p) = Some k)
                     (zip items infos))" for k
      using attribute_records [OF grouped(3), of k] by (simp add: get_list_def)
    have pos: "items ! i \<in> set (get_list m k)
               \<longleftrightarrow> i < length infos \<and> record_installed (infos ! i)
                   \<and> record_tap (infos ! i) = Some k"
      if "i < length items" for i k
      unfolding gl
      using attributed_position [OF d that,
          where P = "\<lambda>p. record_installed (snd p) \<and> record_tap (snd p) = Some k"]
      by simp
    have one: "k = k'" if "x \<in> set (get_list m k)" "x \<in> set (get_list m k')" for x k k'
    proof -
      from that(1) have "x \<in> set items" unfolding gl by (auto dest: set_zip_leftD)
      then obtain i where i: "i < length items" "items ! i = x"
        by (auto simp: in_set_conv_nth)
      from that pos [OF i(1)] i(2) show ?thesis by auto
    qed
    from one pos grouped(2) tap_field show ?thesis by auto
  qed
qed

theorem group_items_by_tap_attribution_witness:
  "group_items_by_tap demo [''wget'', ''jq''] []
     = (Inr demo_formulae, [Run [''brew'', ''info'', ''--json=v2'', ''wget'', ''jq'']])
   \<and> distinct [''wget'', ''jq'']
   \<and> response_records demo [''wget'', ''jq'']
       = Some [JObj [(''name'', JStr ''wget''), (''tap'', JStr core),
                     (''installed'', JArr [JObj [(''version'', JStr ''1.21.4'')]])],
               JObj [(''name'', JStr ''jq''), (''tap'', JStr ''alice/tools''),
                     (''installed'', JArr [JObj [(''version'', JStr ''1.7'')]])]]
   \<and> ''jq'' \<in> set (get_list demo_formulae (KStr ''alice/tools''))
   \<and> ''jq'' \<notin> set (get_list demo_formulae (KStr core))"
proof -
  have d: "distinct [''wget'', ''jq'']" by simp
  have rr: "response_records demo [''wget'', ''jq'']
       = Some [JObj [(''name'', JStr ''wget''), (''tap'', JStr core),
                     (''installed'', JArr [JObj [(''version'', JStr ''1.21.4'')]])],
               JObj [(''name'', JStr ''jq''), (''tap'', JStr ''alice/tools''),
                     (''installed'', JArr [JObj [(''version'', JStr ''1.7'')]])]]"
    by (simp add: response_records_def demo_def all_records_def formulae_doc_def)
  have jq: "''jq'' \<in> set (get_list demo_formulae (KStr ''alice/tools''))"
    by (simp add: demo_formulae_def get_list_def)
  have ne: "KStr ''alice/tools'' \<noteq> KStr core" by simp
  note one = group_items_by_tap_attribution [OF group_demo_formulae d, THEN conjunct1,
      rule_format, of "''jq''" "KStr ''alice/tools''" "KStr core"]
  have no: "''jq'' \<notin> set (get_list demo_formulae (KStr core))"
  proof
    assume "''jq'' \<in> set (get_list demo_formulae (KStr core))"
    with jq have "KStr ''alice/tools'' = KStr core" by (intro one conjI)
    with ne show False by contradiction
  qed
  show ?thesis
    by (intro conjI group_demo_formulae d rr jq no)
qed

text \<open>
  Where the sentence of C1 fails as written: \<^verbatim>\<open>wget\<close> is a name the enumerator
  returned, the query succeeds, and the record of \<^verbatim>\<open>wget\<close> lists no installed
  version; the grouping that comes back is empty, so \<^verbatim>\<open>wget\<close> is in no tap.
\<close>

theorem group_items_by_tap_drops_item:
  "response_records stale [''wget'']
     = Some [JObj [(''name'', JStr ''wget''), (''tap'', JStr core), (''installed'', JArr [])]]
   \<and> group_items_by_tap stale [''wget''] []
     = (Inr Map.empty, [Run [''brew'', ''info'', ''--json=v2'', ''wget'']])"
  by (simp add: response_records_def group_items_by_tap_def try_group_def run_def stale_def
      demo_def group_parsed_def all_records_def stale_doc_def)

section \<open>Merging the two groupings\<close>

lemma merge_formulae_and_casks_code [code]:
  "merge_formulae_and_casks formula_map cask_map =
     (\<lambda>tap. if formula_map tap \<noteq> None \<or> cask_map tap \<noteq> None
             then Some [''formulae'' \<mapsto> get_list formula_map tap,
                        ''casks'' \<mapsto> get_list cask_map tap]
             else None)"
  by (auto simp: merge_formulae_and_casks_def dom_def)

text \<open>
  C6. The keys of the merged mapping are the keys of the formula map together with the
  keys of the cask map. The record of each of them has exactly the two fields
  \<^verbatim>\<open>formulae\<close> and \<^verbatim>\<open>casks\<close>, holding the list the formula map has for the tap and
  the list the cask map has for it, unchanged, and the empty list where a map has no
  entry for the tap. The embedding is a total function of the two maps alone: the
  source has no call and no raising operation in it.
\<close>

theorem merge_formulae_and_casks_union:
  "dom (merge_formulae_and_casks formula_map cask_map) = dom formula_map \<union> dom cask_map
   \<and> (\<forall>tap \<in> dom formula_map \<union> dom cask_map.
        \<exists>r. merge_formulae_and_casks formula_map cask_map tap = Some r
           \<and> dom r = {''formulae'', ''casks''}
           \<and> r ''formulae'' = Some (case formula_map tap of None \<Rightarrow> [] | Some xs \<Rightarrow> xs)
           \<and> r ''casks'' = Some (case cask_map tap of None \<Rightarrow> [] | Some xs \<Rightarrow> xs))"
  by (auto simp: merge_formulae_and_casks_def get_list_def dom_def split: if_splits)

theorem merge_formulae_and_casks_union_witness:
  "dom demo_formulae \<union> dom demo_casks = {KStr core, KStr ''alice/tools'', KStr cask}
   \<and> dom (merge_formulae_and_casks demo_formulae demo_casks)
       = {KStr core, KStr ''alice/tools'', KStr cask}
   \<and> (\<exists>r. merge_formulae_and_casks demo_formulae demo_casks (KStr cask) = Some r
          \<and> dom r = {''formulae'', ''casks''}
          \<and> r ''formulae'' = Some []
          \<and> r ''casks'' = Some [''firefox''])"
proof -
  have keys: "dom demo_formulae \<union> dom demo_casks
              = {KStr core, KStr ''alice/tools'', KStr cask}"
    by (auto simp: demo_formulae_def demo_casks_def)
  have mem: "KStr cask \<in> dom demo_formulae \<union> dom demo_casks"
    by (simp add: demo_casks_def)
  note all = merge_formulae_and_casks_union [of demo_formulae demo_casks]
  from all [THEN conjunct2, rule_format, OF mem]
  have "\<exists>r. merge_formulae_and_casks demo_formulae demo_casks (KStr cask) = Some r
          \<and> dom r = {''formulae'', ''casks''}
          \<and> r ''formulae'' = Some []
          \<and> r ''casks'' = Some [''firefox'']"
    by (simp add: demo_formulae_def demo_casks_def)
  with keys all [THEN conjunct1] show ?thesis by simp
qed

section \<open>Checking the taps\<close>

lemma print_all_trace: "print_all ls tr = (Inr (), tr @ map Print ls)"
  by (induction ls arbitrary: tr) (simp_all add: and_then_def print_def)

lemma printed_append: "printed (a @ b) = printed a @ printed b"
  by (induction a rule: printed.induct) simp_all

lemma printed_map_Print: "printed (map Print ls) = ls"
  by (induction ls) simp_all

lemma check_tap_bad: "infer_tap_url tap = Inl e \<Longrightarrow> check_tap w tap inst tr = (Inl e, tr)"
  by (simp add: check_tap_def)

lemma check_tap_good:
  "infer_tap_url tap = Inr url \<Longrightarrow>
   check_tap w tap inst tr =
     (Inr (), tr @ Head url # Print (status_line tap url (probe_result w url))
                 # map Print (listing tap inst))"
  by (simp add: check_tap_def and_then_def check_url_reachable_probe print_def
      print_all_trace)

lemma check_taps_bad:
  "tap \<in> set taps \<Longrightarrow> infer_tap_url tap = Inl ValueError \<Longrightarrow>
   fst (check_taps w taps installed_map tr) = Inl ValueError"
proof (induction taps arbitrary: tr)
  case Nil
  then show ?case by simp
next
  case (Cons t taps)
  show ?case
  proof (cases "infer_tap_url t")
    case (Inl e)
    then have "e = ValueError" by (rule infer_tap_url_Inl)
    with Inl show ?thesis by (simp add: and_then_def check_tap_bad)
  next
    case (Inr url)
    with Cons.prems have "tap \<in> set taps" by auto
    from Cons.IH [OF this Cons.prems(2)] show ?thesis
      by (simp add: and_then_def check_tap_good [OF Inr])
  qed
qed

lemma report_bad:
  "tap \<in> set taps \<Longrightarrow> infer_tap_url tap = Inl ValueError \<Longrightarrow>
   fst (report w taps installed_map tr) = Inl ValueError"
  by (auto simp: report_def and_then_def print_def check_taps_bad)

lemma and_then_fails:
  assumes "\<And>a tr'. \<exists>e. fst (g a tr') = Inl e"
  shows "\<exists>e. fst (and_then f g tr) = Inl e"
proof (cases "f tr")
  case (Pair r tr')
  show ?thesis
  proof (cases r)
    case (Inl e)
    with Pair show ?thesis by (simp add: and_then_def)
  next
    case (Inr a)
    with Pair assms [of a tr'] show ?thesis by (simp add: and_then_def)
  qed
qed

lemma main_bad_tap:
  assumes taps: "get_homebrew_taps w tr = (Inr custom_taps, tr')"
    and mem: "tap \<in> set custom_taps"
    and bad: "infer_tap_url tap = Inl ValueError"
  shows "\<exists>e. fst (main w tr) = Inl e"
proof -
  have in_taps: "tap \<in> set (main_taps custom_taps)" using mem by (simp add: main_taps_def)
  have rep: "\<exists>e. fst (report w (main_taps custom_taps) im t) = Inl e" for im t
    using report_bad [OF in_taps bad] by blast
  have "main w tr =
     and_then (get_installed_items w ''formula'') (\<lambda>formulae.
     and_then (get_installed_items w ''cask'') (\<lambda>casks.
     and_then (group_items_by_tap w formulae) (\<lambda>formula_map.
     and_then (group_items_by_tap w casks) (\<lambda>cask_map.
     report w (main_taps custom_taps)
       (merge_formulae_and_casks formula_map cask_map))))) tr'"
    unfolding main_def by (subst and_then_def) (simp add: taps)
  also have "\<exists>e. fst \<dots> = Inl e"
    by (intro and_then_fails rep)
  finally show ?thesis .
qed

text \<open>
  C3. A tap name in which the number of \<^verbatim>\<open>/\<close> is not one makes
  \<^verbatim>\<open>infer_tap_url\<close> raise (\<^verbatim>\<open>ValueError\<close>, from the unpacking of the split).
  \<^verbatim>\<open>check_tap\<close> passes the exception on before it has probed or printed anything;
  the loop over the taps ends with it as soon as such a name is in the list; and a run
  of \<^verbatim>\<open>main\<close> in which \<^verbatim>\<open>brew tap\<close> lists such a name ends with an exception.
\<close>

theorem malformed_tap_is_fatal:
  assumes "count_list tap CHR ''/'' \<noteq> 1"
  shows "infer_tap_url tap = Inl ValueError
    \<and> check_tap w tap inst tr = (Inl ValueError, tr)
    \<and> (tap \<in> set taps \<longrightarrow> fst (report w taps installed_map tr) = Inl ValueError)
    \<and> (\<forall>custom_taps tr'.
          get_homebrew_taps w tr = (Inr custom_taps, tr') \<and> tap \<in> set custom_taps
          \<longrightarrow> (\<exists>e. fst (main w tr) = Inl e))"
proof -
  have bad: "infer_tap_url tap = Inl ValueError" using assms by (rule infer_tap_url_error)
  show ?thesis using bad main_bad_tap [OF _ _ bad] by (auto simp: check_tap_bad report_bad)
qed

theorem malformed_tap_is_fatal_witness:
  "count_list ''badtap'' CHR ''/'' \<noteq> 1
   \<and> infer_tap_url ''badtap'' = Inl ValueError
   \<and> check_tap odd_tap ''badtap'' Map.empty [] = (Inl ValueError, [])
   \<and> get_homebrew_taps odd_tap [] = (Inr [''badtap''], [Run [''brew'', ''tap'']])
   \<and> (\<exists>e. fst (main odd_tap []) = Inl e)"
proof -
  have c: "count_list ''badtap'' CHR ''/'' \<noteq> 1" by simp
  have t: "get_homebrew_taps odd_tap [] = (Inr [''badtap''], [Run [''brew'', ''tap'']])"
    by code_simp
  have mem: "''badtap'' \<in> set [''badtap'']" by simp
  note all = malformed_tap_is_fatal [OF c, of odd_tap Map.empty "[]"]
  note fails = all [THEN conjunct2, THEN conjunct2, THEN conjunct2, rule_format,
      OF conjI, OF t mem]
  show ?thesis
    by (intro conjI c all [THEN conjunct1] all [THEN conjunct2, THEN conjunct1] t fails)
qed

subsection \<open>The lines of a tap\<close>

lemma listing_nonempty: "listing tap inst \<noteq> []"
  by (simp add: listing_def Let_def)

lemma listing_indented: "l \<in> set (listing tap inst) \<Longrightarrow> starts_with ('' '' @ arrow) l"
  by (auto simp: listing_def Let_def starts_with_def arrow_def split: if_splits)

lemma listing_not_status:
  "l \<in> set (listing tap inst) \<Longrightarrow> \<not> starts_with ''[OK]'' l \<and> \<not> starts_with ''[ERROR]'' l"
  by (auto simp: listing_def Let_def starts_with_def split: if_splits)

lemma filter_listing_status:
  "filter (starts_with ''[OK]'') (listing tap inst) = []"
  "filter (starts_with ''[ERROR]'') (listing tap inst) = []"
  by (auto simp: filter_empty_conv dest: listing_not_status)



section \<open>The run of \<^verbatim>\<open>main\<close>\<close>

subsection \<open>The loop over the taps\<close>

text \<open>
  What \<^verbatim>\<open>check_tap\<close> adds to the trace for a tap with exactly one \<^verbatim>\<open>/\<close> is
  \<open>tap_events\<close>: the probe of its URL, its status line and its listing. The loop of
  lines 121 and 122 adds them tap after tap and stops, with \<^verbatim>\<open>ValueError\<close>, at the
  first name that has not exactly one \<^verbatim>\<open>/\<close>.
\<close>

lemma infer_tap_url_ok:
  "count_list tap CHR ''/'' = 1 \<Longrightarrow> \<exists>url. infer_tap_url tap = Inr url"
proof -
  assume "count_list tap CHR ''/'' = 1"
  then have "length (split_sep CHR ''/'' tap) = 2" by (simp add: length_split_sep)
  then obtain a b where "split_sep CHR ''/'' tap = [a, b]"
    by (cases "split_sep CHR ''/'' tap" rule: list.exhaust; simp)
      (metis length_0_conv length_Suc_conv)
  then show ?thesis by (simp add: infer_tap_url_def)
qed

lemma probed_append: "probed (a @ b) = probed a @ probed b"
  by (induction a rule: probed.induct) simp_all

lemma probed_map_Print: "probed (map Print ls) = []"
  by (induction ls) simp_all

lemma check_tap_events:
  "infer_tap_url tap = Inr url \<Longrightarrow>
   check_tap w tap (installed_for installed_map tap) tr
     = (Inr (), tr @ tap_events w installed_map tap)"
  by (simp add: check_tap_good tap_events_def)

lemma check_taps_run:
  "check_taps w taps installed_map tr =
     (if \<forall>tap \<in> set taps. count_list tap CHR ''/'' = 1 then Inr () else Inl ValueError,
      tr @ concat (map (tap_events w installed_map)
                     (takeWhile (\<lambda>tap. count_list tap CHR ''/'' = 1) taps)))"
proof (induction taps arbitrary: tr)
  case Nil
  show ?case by simp
next
  case (Cons tap taps)
  show ?case
  proof (cases "count_list tap CHR ''/'' = 1")
    case True
    then obtain url where url: "infer_tap_url tap = Inr url"
      using infer_tap_url_ok by blast
    show ?thesis
      using True by (simp add: and_then_def check_tap_events [OF url] Cons.IH)
  next
    case False
    then have "infer_tap_url tap = Inl ValueError" by (rule infer_tap_url_error)
    with False show ?thesis by (simp add: and_then_def check_tap_bad)
  qed
qed

lemma report_run:
  "taps \<noteq> [] \<Longrightarrow>
   report w taps installed_map tr =
     (if \<forall>tap \<in> set taps. count_list tap CHR ''/'' = 1 then Inr () else Inl ValueError,
      tr @ Print (found_line (length taps))
         # concat (map (tap_events w installed_map)
                     (takeWhile (\<lambda>tap. count_list tap CHR ''/'' = 1) taps)))"
  by (simp add: report_def and_then_def print_def check_taps_run)

text \<open>
  \<^verbatim>\<open>main\<close> calls \<^verbatim>\<open>brew\<close> five times before line 117. When the five calls
  return, the rest of the run is lines 117 to 122 on the sorted list of taps and the
  merged map; when one of them raises, the run ends there with its exception.
\<close>

lemma main_run:
  assumes "get_homebrew_taps w tr = (Inr custom_taps, t1)"
    and "get_installed_items w ''formula'' t1 = (Inr formulae, t2)"
    and "get_installed_items w ''cask'' t2 = (Inr casks, t3)"
    and "group_items_by_tap w formulae t3 = (Inr formula_map, t4)"
    and "group_items_by_tap w casks t4 = (Inr cask_map, t5)"
  shows "main w tr = report w (main_taps custom_taps)
                       (merge_formulae_and_casks formula_map cask_map) t5"
  by (simp add: main_def and_then_def assms)

lemma main_raises:
  "get_homebrew_taps w tr = (Inl e, t1) \<Longrightarrow> main w tr = (Inl e, t1)"
  "get_homebrew_taps w tr = (Inr custom_taps, t1) \<Longrightarrow>
   get_installed_items w ''formula'' t1 = (Inl e, t2) \<Longrightarrow> main w tr = (Inl e, t2)"
  "get_homebrew_taps w tr = (Inr custom_taps, t1) \<Longrightarrow>
   get_installed_items w ''formula'' t1 = (Inr formulae, t2) \<Longrightarrow>
   get_installed_items w ''cask'' t2 = (Inl e, t3) \<Longrightarrow> main w tr = (Inl e, t3)"
  "get_homebrew_taps w tr = (Inr custom_taps, t1) \<Longrightarrow>
   get_installed_items w ''formula'' t1 = (Inr formulae, t2) \<Longrightarrow>
   get_installed_items w ''cask'' t2 = (Inr casks, t3) \<Longrightarrow>
   group_items_by_tap w formulae t3 = (Inl e, t4) \<Longrightarrow> main w tr = (Inl e, t4)"
  "get_homebrew_taps w tr = (Inr custom_taps, t1) \<Longrightarrow>
   get_installed_items w ''formula'' t1 = (Inr formulae, t2) \<Longrightarrow>
   get_installed_items w ''cask'' t2 = (Inr casks, t3) \<Longrightarrow>
   group_items_by_tap w formulae t3 = (Inr formula_map, t4) \<Longrightarrow>
   group_items_by_tap w casks t4 = (Inl e, t5) \<Longrightarrow> main w tr = (Inl e, t5)"
  by (simp_all add: main_def and_then_def)

text \<open>
  The URLs probed and the status lines printed by the loop, read off the trace: one
  probe and one line starting with \<^verbatim>\<open>[\<close> for each tap, in the order of the list.
\<close>

lemma main_taps_nonempty: "main_taps custom_taps \<noteq> []"
proof -
  have "core \<in> set (main_taps custom_taps)" by (simp add: main_taps_def)
  then show ?thesis by auto
qed

lemma starts_with_append: "starts_with p (p @ q)"
  by (simp add: starts_with_def)

lemma status_line_names_tap:
  "starts_with (''[OK] '' @ tap @ '' ('') (status_line tap url r)
   \<or> starts_with (''[ERROR] Cannot reach '' @ tap @ '' ('') (status_line tap url r)"
proof (cases "r = RBool True")
  case True
  have "status_line tap url r = (''[OK] '' @ tap @ '' ('') @ (url @ '') is reachable'')"
    using True by (simp add: status_line_def)
  then show ?thesis by (simp only: starts_with_append simp_thms)
next
  case False
  have "status_line tap url r
        = (''[ERROR] Cannot reach '' @ tap @ '' ('') @ (url @ ''): '' @ str_reach r)"
    using False by (simp add: status_line_def)
  then show ?thesis by (simp only: starts_with_append simp_thms)
qed

lemma listing_no_bracket: "filter (starts_with ''['') (listing tap inst) = []"
  by (auto simp: filter_empty_conv listing_def Let_def starts_with_def split: if_splits)

lemma status_line_bracket: "starts_with ''['' (status_line tap url r)"
  by (simp add: status_line_def starts_with_def)

lemma tap_events_probed:
  "count_list tap CHR ''/'' = 1 \<Longrightarrow>
   map Inr (probed (tap_events w installed_map tap)) = [infer_tap_url tap]"
proof -
  assume "count_list tap CHR ''/'' = 1"
  then obtain url where "infer_tap_url tap = Inr url" using infer_tap_url_ok by blast
  then show ?thesis by (simp add: tap_events_def probed_map_Print)
qed

lemma tap_events_status:
  "count_list tap CHR ''/'' = 1 \<Longrightarrow>
   \<exists>l. filter (starts_with ''['') (printed (tap_events w installed_map tap)) = [l]
      \<and> (starts_with (''[OK] '' @ tap @ '' ('') l
         \<or> starts_with (''[ERROR] Cannot reach '' @ tap @ '' ('') l)"
proof -
  assume "count_list tap CHR ''/'' = 1"
  then obtain url where "infer_tap_url tap = Inr url" using infer_tap_url_ok by blast
  then have "filter (starts_with ''['') (printed (tap_events w installed_map tap))
             = [status_line tap url (probe_result w url)]"
    by (simp add: tap_events_def printed_map_Print listing_no_bracket status_line_bracket)
  then show ?thesis using status_line_names_tap by blast
qed

lemma loop_probed:
  "\<forall>tap \<in> set taps. count_list tap CHR ''/'' = 1 \<Longrightarrow>
   map Inr (probed (concat (map (tap_events w installed_map) taps))) = map infer_tap_url taps"
  by (induction taps) (simp_all add: probed_append tap_events_probed)

lemma loop_status:
  "\<forall>tap \<in> set taps. count_list tap CHR ''/'' = 1 \<Longrightarrow>
   list_all2 (\<lambda>tap l. starts_with (''[OK] '' @ tap @ '' ('') l
                     \<or> starts_with (''[ERROR] Cannot reach '' @ tap @ '' ('') l)
     taps (filter (starts_with ''['') (printed (concat (map (tap_events w installed_map) taps))))"
proof (induction taps)
  case Nil
  show ?case by simp
next
  case (Cons tap taps)
  then have wf: "count_list tap CHR ''/'' = 1" by simp
  from tap_events_status [OF wf, of w installed_map] obtain l where
    l: "filter (starts_with ''['') (printed (tap_events w installed_map tap)) = [l]"
       "starts_with (''[OK] '' @ tap @ '' ('') l
        \<or> starts_with (''[ERROR] Cannot reach '' @ tap @ '' ('') l" by blast
  from Cons have "list_all2 (\<lambda>tap l. starts_with (''[OK] '' @ tap @ '' ('') l
                     \<or> starts_with (''[ERROR] Cannot reach '' @ tap @ '' ('') l)
     taps (filter (starts_with ''['') (printed (concat (map (tap_events w installed_map) taps))))"
    by simp
  with l show ?case by (simp add: printed_append)
qed

lemma found_line_no_bracket: "\<not> starts_with ''['' (found_line n)"
  by (simp add: found_line_def starts_with_def)

subsection \<open>Three taps, one of them unreachable\<close>













section \<open>The taps \<^verbatim>\<open>main\<close> goes through\<close>

text \<open>The run on the machine whose \<^verbatim>\<open>brew tap\<close> exits with an error.\<close>

lemma main_untapped:
  "main untapped [] =
     (Inr (),
      [Run [''brew'', ''tap''],
       Print ''Error getting taps: Command returned non-zero exit status 1.'',
       Run [''brew'', ''list'', ''--formula''],
       Run [''brew'', ''list'', ''--cask''],
       Run [''brew'', ''info'', ''--json=v2'', ''wget'', ''jq''],
       Run [''brew'', ''info'', ''--json=v2'', ''firefox''],
       Print (''Found 2 taps. Checking accessibility and usage...'' @ [CHR 0x0A]),
       Head ''https://github.com/homebrew/homebrew-cask'',
       Print ''[OK] homebrew/cask (https://github.com/homebrew/homebrew-cask) is reachable'',
       Print ('' '' @ [CHR 0xE2, CHR 0x86, CHR 0xB3] @ '' Casks: firefox''),
       Head ''https://github.com/homebrew/homebrew-core'',
       Print ''[OK] homebrew/core (https://github.com/homebrew/homebrew-core) is reachable'',
       Print ('' '' @ [CHR 0xE2, CHR 0x86, CHR 0xB3] @ '' Formulae: wget'')])"
  by code_simp


lemma untapped_formula_items:
  "get_installed_items untapped ''formula''
     [Run [''brew'', ''tap''],
       Print ''Error getting taps: Command returned non-zero exit status 1.'']
   = (Inr [''wget'', ''jq''],
      [Run [''brew'', ''tap''],
       Print ''Error getting taps: Command returned non-zero exit status 1.'',
       Run [''brew'', ''list'', ''--formula'']])"
  by code_simp

lemma untapped_cask_items:
  "get_installed_items untapped ''cask''
     [Run [''brew'', ''tap''],
       Print ''Error getting taps: Command returned non-zero exit status 1.'',
       Run [''brew'', ''list'', ''--formula'']]
   = (Inr [''firefox''],
      [Run [''brew'', ''tap''],
       Print ''Error getting taps: Command returned non-zero exit status 1.'',
       Run [''brew'', ''list'', ''--formula''],
       Run [''brew'', ''list'', ''--cask'']])"
  by code_simp

lemma untapped_formula_map:
  "group_items_by_tap untapped [''wget'', ''jq'']
     [Run [''brew'', ''tap''],
       Print ''Error getting taps: Command returned non-zero exit status 1.'',
       Run [''brew'', ''list'', ''--formula''],
       Run [''brew'', ''list'', ''--cask'']]
   = (Inr demo_formulae,
      [Run [''brew'', ''tap''],
       Print ''Error getting taps: Command returned non-zero exit status 1.'',
       Run [''brew'', ''list'', ''--formula''],
       Run [''brew'', ''list'', ''--cask''],
       Run [''brew'', ''info'', ''--json=v2'', ''wget'', ''jq'']])"
  by (simp add: group_items_by_tap_def try_group_def run_def untapped_def demo_def
      group_parsed_def all_records_def formulae_doc_def append_item_def demo_formulae_def)

lemma untapped_cask_map:
  "group_items_by_tap untapped [''firefox'']
     [Run [''brew'', ''tap''],
       Print ''Error getting taps: Command returned non-zero exit status 1.'',
       Run [''brew'', ''list'', ''--formula''],
       Run [''brew'', ''list'', ''--cask''],
       Run [''brew'', ''info'', ''--json=v2'', ''wget'', ''jq'']]
   = (Inr demo_casks,
      [Run [''brew'', ''tap''],
       Print ''Error getting taps: Command returned non-zero exit status 1.'',
       Run [''brew'', ''list'', ''--formula''],
       Run [''brew'', ''list'', ''--cask''],
       Run [''brew'', ''info'', ''--json=v2'', ''wget'', ''jq''],
       Run [''brew'', ''info'', ''--json=v2'', ''firefox'']])"
  by (simp add: group_items_by_tap_def try_group_def run_def untapped_def demo_def
      group_parsed_def all_records_def casks_doc_def append_item_def demo_casks_def)

text \<open>
  C9. The list \<open>main_taps custom_taps\<close> (lines 109 to 111 applied to what
  \<^verbatim>\<open>get_homebrew_taps\<close> returned) holds \<^verbatim>\<open>homebrew/core\<close> and \<^verbatim>\<open>homebrew/cask\<close>,
  holds exactly the two defaults and the enumerated names, holds no name twice and is
  sorted in the lexicographic order of strings. When \<^verbatim>\<open>brew tap\<close> exits with an
  error, \<^verbatim>\<open>get_homebrew_taps\<close> prints the error and returns the empty list, and the
  list is the two defaults.

  Every run of \<^verbatim>\<open>main\<close> iterates over that list. When the five calls before line
  117 return, the run probes, in this order and with nothing else probed, the URLs of
  the names of the list up to the first name that has not exactly one \<^verbatim>\<open>/\<close>, and the
  lines it then prints that start with \<^verbatim>\<open>[\<close> are the status lines of those names, in the
  same order, one for each; the run ends normally when every name of the list has
  exactly one \<^verbatim>\<open>/\<close>, and with \<^verbatim>\<open>ValueError\<close> otherwise. When one of the five
  calls raises, the run ends with that exception before the loop, and iterates over
  nothing.
\<close>

theorem main_taps_defaults_distinct_sorted:
  "core \<in> set (main_taps custom_taps) \<and> cask \<in> set (main_taps custom_taps)
   \<and> set (main_taps custom_taps) = {core, cask} \<union> set custom_taps
   \<and> distinct (main_taps custom_taps) \<and> sorted (main_taps custom_taps)
   \<and> (subprocess_run w [''brew'', ''tap''] = Inl (CalledProcessError m) \<longrightarrow>
        get_homebrew_taps w tr
          = (Inr [], tr @ [Run [''brew'', ''tap''], Print (''Error getting taps: '' @ m)])
        \<and> main_taps [] = [cask, core])
   \<and> (\<forall>enumerated t1 formulae t2 casks t3 formula_map t4 cask_map t5.
        get_homebrew_taps w tr = (Inr enumerated, t1)
        \<and> get_installed_items w ''formula'' t1 = (Inr formulae, t2)
        \<and> get_installed_items w ''cask'' t2 = (Inr casks, t3)
        \<and> group_items_by_tap w formulae t3 = (Inr formula_map, t4)
        \<and> group_items_by_tap w casks t4 = (Inr cask_map, t5) \<longrightarrow>
        (\<exists>evs.
           main w tr =
             (if \<forall>tap \<in> set (main_taps enumerated). count_list tap CHR ''/'' = 1
              then Inr () else Inl ValueError,
              t5 @ evs)
         \<and> map Inr (probed evs)
             = map infer_tap_url
                 (takeWhile (\<lambda>tap. count_list tap CHR ''/'' = 1) (main_taps enumerated))
         \<and> list_all2
             (\<lambda>tap l. starts_with (''[OK] '' @ tap @ '' ('') l
                     \<or> starts_with (''[ERROR] Cannot reach '' @ tap @ '' ('') l)
             (takeWhile (\<lambda>tap. count_list tap CHR ''/'' = 1) (main_taps enumerated))
             (filter (starts_with ''['') (printed evs))))
   \<and> (\<forall>e t1. get_homebrew_taps w tr = (Inl e, t1) \<longrightarrow> main w tr = (Inl e, t1))
   \<and> (\<forall>enumerated t1 e t2.
        get_homebrew_taps w tr = (Inr enumerated, t1)
        \<and> get_installed_items w ''formula'' t1 = (Inl e, t2) \<longrightarrow> main w tr = (Inl e, t2))
   \<and> (\<forall>enumerated t1 formulae t2 e t3.
        get_homebrew_taps w tr = (Inr enumerated, t1)
        \<and> get_installed_items w ''formula'' t1 = (Inr formulae, t2)
        \<and> get_installed_items w ''cask'' t2 = (Inl e, t3) \<longrightarrow> main w tr = (Inl e, t3))
   \<and> (\<forall>enumerated t1 formulae t2 casks t3 e t4.
        get_homebrew_taps w tr = (Inr enumerated, t1)
        \<and> get_installed_items w ''formula'' t1 = (Inr formulae, t2)
        \<and> get_installed_items w ''cask'' t2 = (Inr casks, t3)
        \<and> group_items_by_tap w formulae t3 = (Inl e, t4) \<longrightarrow> main w tr = (Inl e, t4))
   \<and> (\<forall>enumerated t1 formulae t2 casks t3 formula_map t4 e t5.
        get_homebrew_taps w tr = (Inr enumerated, t1)
        \<and> get_installed_items w ''formula'' t1 = (Inr formulae, t2)
        \<and> get_installed_items w ''cask'' t2 = (Inr casks, t3)
        \<and> group_items_by_tap w formulae t3 = (Inr formula_map, t4)
        \<and> group_items_by_tap w casks t4 = (Inl e, t5) \<longrightarrow> main w tr = (Inl e, t5))"
proof -
  have list:
    "core \<in> set (main_taps custom_taps)"
    "cask \<in> set (main_taps custom_taps)"
    "set (main_taps custom_taps) = {core, cask} \<union> set custom_taps"
    "distinct (main_taps custom_taps)"
    "sorted (main_taps custom_taps)"
    by (auto simp: main_taps_def)
  have fails: "subprocess_run w [''brew'', ''tap''] = Inl (CalledProcessError m) \<longrightarrow>
        get_homebrew_taps w tr
          = (Inr [], tr @ [Run [''brew'', ''tap''], Print (''Error getting taps: '' @ m)])
        \<and> main_taps [] = [cask, core]"
    by (simp add: main_taps_def get_homebrew_taps_def run_def and_then_def print_def)
  have loop: "\<exists>evs.
           main w tr =
             (if \<forall>tap \<in> set (main_taps enumerated). count_list tap CHR ''/'' = 1
              then Inr () else Inl ValueError,
              t5 @ evs)
         \<and> map Inr (probed evs)
             = map infer_tap_url
                 (takeWhile (\<lambda>tap. count_list tap CHR ''/'' = 1) (main_taps enumerated))
         \<and> list_all2
             (\<lambda>tap l. starts_with (''[OK] '' @ tap @ '' ('') l
                     \<or> starts_with (''[ERROR] Cannot reach '' @ tap @ '' ('') l)
             (takeWhile (\<lambda>tap. count_list tap CHR ''/'' = 1) (main_taps enumerated))
             (filter (starts_with ''['') (printed evs))"
    if ph: "get_homebrew_taps w tr = (Inr enumerated, t1)"
      "get_installed_items w ''formula'' t1 = (Inr formulae, t2)"
      "get_installed_items w ''cask'' t2 = (Inr casks, t3)"
      "group_items_by_tap w formulae t3 = (Inr formula_map, t4)"
      "group_items_by_tap w casks t4 = (Inr cask_map, t5)"
    for enumerated t1 formulae t2 casks t3 formula_map t4 cask_map t5
  proof -
    let ?taps = "main_taps enumerated"
    let ?good = "takeWhile (\<lambda>tap. count_list tap CHR ''/'' = 1) ?taps"
    let ?im = "merge_formulae_and_casks formula_map cask_map"
    let ?evs = "Print (found_line (length ?taps)) # concat (map (tap_events w ?im) ?good)"
    have good: "\<forall>tap \<in> set ?good. count_list tap CHR ''/'' = 1"
      by (auto dest: set_takeWhileD)
    have "main w tr = report w ?taps ?im t5" using ph by (rule main_run)
    also have "\<dots> = (if \<forall>tap \<in> set ?taps. count_list tap CHR ''/'' = 1
                     then Inr () else Inl ValueError, t5 @ ?evs)"
      by (rule report_run [OF main_taps_nonempty])
    finally have run: "main w tr = (if \<forall>tap \<in> set ?taps. count_list tap CHR ''/'' = 1
                     then Inr () else Inl ValueError, t5 @ ?evs)" .
    have pr: "map Inr (probed ?evs) = map infer_tap_url ?good"
      using loop_probed [OF good, of w ?im] by simp
    have st: "list_all2
             (\<lambda>tap l. starts_with (''[OK] '' @ tap @ '' ('') l
                     \<or> starts_with (''[ERROR] Cannot reach '' @ tap @ '' ('') l)
             ?good (filter (starts_with ''['') (printed ?evs))"
      using loop_status [OF good, of w ?im] by (simp add: found_line_no_bracket)
    from run pr st show ?thesis by (intro exI [of _ ?evs] conjI)
  qed
  have r1: "\<forall>e t1. get_homebrew_taps w tr = (Inl e, t1) \<longrightarrow> main w tr = (Inl e, t1)"
    by (intro allI impI, rule main_raises(1))
  have r2: "\<forall>enumerated t1 e t2.
        get_homebrew_taps w tr = (Inr enumerated, t1)
        \<and> get_installed_items w ''formula'' t1 = (Inl e, t2) \<longrightarrow> main w tr = (Inl e, t2)"
    by (intro allI impI, elim conjE, rule main_raises(2))
  have r3: "\<forall>enumerated t1 formulae t2 e t3.
        get_homebrew_taps w tr = (Inr enumerated, t1)
        \<and> get_installed_items w ''formula'' t1 = (Inr formulae, t2)
        \<and> get_installed_items w ''cask'' t2 = (Inl e, t3) \<longrightarrow> main w tr = (Inl e, t3)"
    by (intro allI impI, elim conjE, rule main_raises(3))
  have r4: "\<forall>enumerated t1 formulae t2 casks t3 e t4.
        get_homebrew_taps w tr = (Inr enumerated, t1)
        \<and> get_installed_items w ''formula'' t1 = (Inr formulae, t2)
        \<and> get_installed_items w ''cask'' t2 = (Inr casks, t3)
        \<and> group_items_by_tap w formulae t3 = (Inl e, t4) \<longrightarrow> main w tr = (Inl e, t4)"
    by (intro allI impI, elim conjE, rule main_raises(4))
  have r5: "\<forall>enumerated t1 formulae t2 casks t3 formula_map t4 e t5.
        get_homebrew_taps w tr = (Inr enumerated, t1)
        \<and> get_installed_items w ''formula'' t1 = (Inr formulae, t2)
        \<and> get_installed_items w ''cask'' t2 = (Inr casks, t3)
        \<and> group_items_by_tap w formulae t3 = (Inr formula_map, t4)
        \<and> group_items_by_tap w casks t4 = (Inl e, t5) \<longrightarrow> main w tr = (Inl e, t5)"
    by (intro allI impI, elim conjE, rule main_raises(5))
  have loop': "\<forall>enumerated t1 formulae t2 casks t3 formula_map t4 cask_map t5.
        get_homebrew_taps w tr = (Inr enumerated, t1)
        \<and> get_installed_items w ''formula'' t1 = (Inr formulae, t2)
        \<and> get_installed_items w ''cask'' t2 = (Inr casks, t3)
        \<and> group_items_by_tap w formulae t3 = (Inr formula_map, t4)
        \<and> group_items_by_tap w casks t4 = (Inr cask_map, t5) \<longrightarrow>
        (\<exists>evs.
           main w tr =
             (if \<forall>tap \<in> set (main_taps enumerated). count_list tap CHR ''/'' = 1
              then Inr () else Inl ValueError,
              t5 @ evs)
         \<and> map Inr (probed evs)
             = map infer_tap_url
                 (takeWhile (\<lambda>tap. count_list tap CHR ''/'' = 1) (main_taps enumerated))
         \<and> list_all2
             (\<lambda>tap l. starts_with (''[OK] '' @ tap @ '' ('') l
                     \<or> starts_with (''[ERROR] Cannot reach '' @ tap @ '' ('') l)
             (takeWhile (\<lambda>tap. count_list tap CHR ''/'' = 1) (main_taps enumerated))
             (filter (starts_with ''['') (printed evs)))"
    by (intro allI impI, elim conjE, rule loop)
  show ?thesis
    by (intro conjI list fails loop' r1 r2 r3 r4 r5)
qed

theorem main_taps_defaults_distinct_sorted_witness:
  "subprocess_run untapped [''brew'', ''tap''] = Inl (CalledProcessError ''Command returned non-zero exit status 1.'')
   \<and> get_homebrew_taps untapped []
     = (Inr [],
        [Run [''brew'', ''tap''],
       Print ''Error getting taps: Command returned non-zero exit status 1.''])
   \<and> main_taps [] = [cask, core]
   \<and> main untapped [] =
     (Inr (),
      [Run [''brew'', ''tap''],
       Print ''Error getting taps: Command returned non-zero exit status 1.'',
       Run [''brew'', ''list'', ''--formula''],
       Run [''brew'', ''list'', ''--cask''],
       Run [''brew'', ''info'', ''--json=v2'', ''wget'', ''jq''],
       Run [''brew'', ''info'', ''--json=v2'', ''firefox'']]
      @ [Print (''Found 2 taps. Checking accessibility and usage...'' @ [CHR 0x0A]),
       Head ''https://github.com/homebrew/homebrew-cask'',
       Print ''[OK] homebrew/cask (https://github.com/homebrew/homebrew-cask) is reachable'',
       Print ('' '' @ [CHR 0xE2, CHR 0x86, CHR 0xB3] @ '' Casks: firefox''),
       Head ''https://github.com/homebrew/homebrew-core'',
       Print ''[OK] homebrew/core (https://github.com/homebrew/homebrew-core) is reachable'',
       Print ('' '' @ [CHR 0xE2, CHR 0x86, CHR 0xB3] @ '' Formulae: wget'')])
   \<and> map Inr (probed
      [Print (''Found 2 taps. Checking accessibility and usage...'' @ [CHR 0x0A]),
       Head ''https://github.com/homebrew/homebrew-cask'',
       Print ''[OK] homebrew/cask (https://github.com/homebrew/homebrew-cask) is reachable'',
       Print ('' '' @ [CHR 0xE2, CHR 0x86, CHR 0xB3] @ '' Casks: firefox''),
       Head ''https://github.com/homebrew/homebrew-core'',
       Print ''[OK] homebrew/core (https://github.com/homebrew/homebrew-core) is reachable'',
       Print ('' '' @ [CHR 0xE2, CHR 0x86, CHR 0xB3] @ '' Formulae: wget'')])
     = [Inr ''https://github.com/homebrew/homebrew-cask'' :: exn + string,
        Inr ''https://github.com/homebrew/homebrew-core'']
   \<and> list_all2
       (\<lambda>tap l. starts_with (''[OK] '' @ tap @ '' ('') l
                \<or> starts_with (''[ERROR] Cannot reach '' @ tap @ '' ('') l)
       [cask, core]
       (filter (starts_with ''['') (printed
      [Print (''Found 2 taps. Checking accessibility and usage...'' @ [CHR 0x0A]),
       Head ''https://github.com/homebrew/homebrew-cask'',
       Print ''[OK] homebrew/cask (https://github.com/homebrew/homebrew-cask) is reachable'',
       Print ('' '' @ [CHR 0xE2, CHR 0x86, CHR 0xB3] @ '' Casks: firefox''),
       Head ''https://github.com/homebrew/homebrew-core'',
       Print ''[OK] homebrew/core (https://github.com/homebrew/homebrew-core) is reachable'',
       Print ('' '' @ [CHR 0xE2, CHR 0x86, CHR 0xB3] @ '' Formulae: wget'')]))
   \<and> sorted (main_taps [''zed/tools'', ''alice/tools'', core, ''alice/tools''])
   \<and> distinct (main_taps [''zed/tools'', ''alice/tools'', core, ''alice/tools''])"
proof -
  have f: "subprocess_run untapped [''brew'', ''tap''] = Inl (CalledProcessError ''Command returned non-zero exit status 1.'')"
    by (simp add: untapped_def)
  note fail = main_taps_defaults_distinct_sorted
    [of "[]" untapped "''Command returned non-zero exit status 1.''" "[]",
      THEN conjunct2, THEN conjunct2, THEN conjunct2, THEN conjunct2, THEN conjunct2,
      THEN conjunct1, THEN mp, OF f]
  have mt: "main_taps [] = [cask, core]" by (rule fail [THEN conjunct2])
  have t: "get_homebrew_taps untapped []
     = (Inr [],
        [Run [''brew'', ''tap''],
       Print ''Error getting taps: Command returned non-zero exit status 1.''])"
    using fail [THEN conjunct1] by simp
  note run = main_taps_defaults_distinct_sorted
    [of "[]" untapped "''Command returned non-zero exit status 1.''" "[]",
      THEN conjunct2, THEN conjunct2, THEN conjunct2, THEN conjunct2, THEN conjunct2,
      THEN conjunct2, THEN conjunct1, rule_format,
      OF conjI [OF t conjI [OF untapped_formula_items conjI [OF untapped_cask_items
          conjI [OF untapped_formula_map untapped_cask_map]]]]]
  from run obtain evs where
    a: "main untapped [] =
          (if \<forall>tap \<in> set (main_taps []). count_list tap CHR ''/'' = 1
           then Inr () else Inl ValueError,
           [Run [''brew'', ''tap''],
       Print ''Error getting taps: Command returned non-zero exit status 1.'',
       Run [''brew'', ''list'', ''--formula''],
       Run [''brew'', ''list'', ''--cask''],
       Run [''brew'', ''info'', ''--json=v2'', ''wget'', ''jq''],
       Run [''brew'', ''info'', ''--json=v2'', ''firefox'']] @ evs)"
    and b: "map Inr (probed evs)
            = map infer_tap_url
                (takeWhile (\<lambda>tap. count_list tap CHR ''/'' = 1) (main_taps []))"
    and c: "list_all2
       (\<lambda>tap l. starts_with (''[OK] '' @ tap @ '' ('') l
                \<or> starts_with (''[ERROR] Cannot reach '' @ tap @ '' ('') l)
       (takeWhile (\<lambda>tap. count_list tap CHR ''/'' = 1) (main_taps []))
       (filter (starts_with ''['') (printed evs))"
    by (elim exE conjE)
  have tw: "takeWhile (\<lambda>tap. count_list tap CHR ''/'' = 1) (main_taps []) = [cask, core]"
    unfolding mt by simp
  have urls: "map infer_tap_url [cask, core]
     = [Inr ''https://github.com/homebrew/homebrew-cask'' :: exn + string,
        Inr ''https://github.com/homebrew/homebrew-core'']"
    by code_simp
  have e: "evs = [Print (''Found 2 taps. Checking accessibility and usage...'' @ [CHR 0x0A]),
       Head ''https://github.com/homebrew/homebrew-cask'',
       Print ''[OK] homebrew/cask (https://github.com/homebrew/homebrew-cask) is reachable'',
       Print ('' '' @ [CHR 0xE2, CHR 0x86, CHR 0xB3] @ '' Casks: firefox''),
       Head ''https://github.com/homebrew/homebrew-core'',
       Print ''[OK] homebrew/core (https://github.com/homebrew/homebrew-core) is reachable'',
       Print ('' '' @ [CHR 0xE2, CHR 0x86, CHR 0xB3] @ '' Formulae: wget'')]"
    using a unfolding main_untapped by simp
  have m: "main untapped [] =
     (Inr (),
      [Run [''brew'', ''tap''],
       Print ''Error getting taps: Command returned non-zero exit status 1.'',
       Run [''brew'', ''list'', ''--formula''],
       Run [''brew'', ''list'', ''--cask''],
       Run [''brew'', ''info'', ''--json=v2'', ''wget'', ''jq''],
       Run [''brew'', ''info'', ''--json=v2'', ''firefox'']]
      @ [Print (''Found 2 taps. Checking accessibility and usage...'' @ [CHR 0x0A]),
       Head ''https://github.com/homebrew/homebrew-cask'',
       Print ''[OK] homebrew/cask (https://github.com/homebrew/homebrew-cask) is reachable'',
       Print ('' '' @ [CHR 0xE2, CHR 0x86, CHR 0xB3] @ '' Casks: firefox''),
       Head ''https://github.com/homebrew/homebrew-core'',
       Print ''[OK] homebrew/core (https://github.com/homebrew/homebrew-core) is reachable'',
       Print ('' '' @ [CHR 0xE2, CHR 0x86, CHR 0xB3] @ '' Formulae: wget'')])"
    unfolding main_untapped by simp
  have b': "map Inr (probed
      [Print (''Found 2 taps. Checking accessibility and usage...'' @ [CHR 0x0A]),
       Head ''https://github.com/homebrew/homebrew-cask'',
       Print ''[OK] homebrew/cask (https://github.com/homebrew/homebrew-cask) is reachable'',
       Print ('' '' @ [CHR 0xE2, CHR 0x86, CHR 0xB3] @ '' Casks: firefox''),
       Head ''https://github.com/homebrew/homebrew-core'',
       Print ''[OK] homebrew/core (https://github.com/homebrew/homebrew-core) is reachable'',
       Print ('' '' @ [CHR 0xE2, CHR 0x86, CHR 0xB3] @ '' Formulae: wget'')])
     = [Inr ''https://github.com/homebrew/homebrew-cask'' :: exn + string,
        Inr ''https://github.com/homebrew/homebrew-core'']"
    using b unfolding tw urls e .
  have c': "list_all2
       (\<lambda>tap l. starts_with (''[OK] '' @ tap @ '' ('') l
                \<or> starts_with (''[ERROR] Cannot reach '' @ tap @ '' ('') l)
       [cask, core]
       (filter (starts_with ''['') (printed
      [Print (''Found 2 taps. Checking accessibility and usage...'' @ [CHR 0x0A]),
       Head ''https://github.com/homebrew/homebrew-cask'',
       Print ''[OK] homebrew/cask (https://github.com/homebrew/homebrew-cask) is reachable'',
       Print ('' '' @ [CHR 0xE2, CHR 0x86, CHR 0xB3] @ '' Casks: firefox''),
       Head ''https://github.com/homebrew/homebrew-core'',
       Print ''[OK] homebrew/core (https://github.com/homebrew/homebrew-core) is reachable'',
       Print ('' '' @ [CHR 0xE2, CHR 0x86, CHR 0xB3] @ '' Formulae: wget'')]))"
    using c unfolding tw e .
  note any = main_taps_defaults_distinct_sorted
    [of "[''zed/tools'', ''alice/tools'', core, ''alice/tools'']" untapped "[]" "[]"]
  note srt = any [THEN conjunct2, THEN conjunct2, THEN conjunct2, THEN conjunct2,
      THEN conjunct1]
  note dst = any [THEN conjunct2, THEN conjunct2, THEN conjunct2, THEN conjunct1]
  show ?thesis by (intro conjI f t mt m b' c' srt dst)
qed

text \<open>An example of the list: duplicates removed, defaults added, names in order.\<close>

lemma main_taps_example:
  "main_taps [''zed/tools'', ''alice/tools'', core, ''alice/tools'']
   = [''alice/tools'', cask, core, ''zed/tools'']"
  by code_simp

end
